theory Spec2Isabelle
  imports Main "HOL-Library.Sublist" "HOL-Library.Code_Target_Nat"
begin

section \<open>Strings and the regular expressions of utils.js\<close>

text \<open>
  A JavaScript string is a sequence of UTF-16 code units, and the regular expressions
  of utils.js (none has the \<open>u\<close> flag) work on code units. The functions of utils.js
  that look at characters are modelled on such sequences. \<open>ascii\<close> gives the code units
  of a string literal of the source whose characters are all ASCII.
\<close>

type_synonym codeunit = nat

type_synonym jsstring = "codeunit list"

abbreviation cu :: "char \<Rightarrow> codeunit" where
  "cu c \<equiv> of_char c"

definition ascii :: "string \<Rightarrow> jsstring" where
  "ascii s = map of_char s"

text \<open>
  The class \<open>\s\<close>, which is also what \<open>trim\<close> removes: the white space and the line
  terminators of ECMAScript (TAB, LF, VT, FF, CR, SP, NBSP, U+1680, U+2000..U+200A,
  U+2028, U+2029, U+202F, U+205F, U+3000 and U+FEFF).
\<close>

definition isSpace :: "codeunit \<Rightarrow> bool" where
  "isSpace c =
     (c \<in> set [0x09, 0x0A, 0x0B, 0x0C, 0x0D, 0x20, 0xA0, 0x1680, 0x2028, 0x2029, 0x202F,
                0x205F, 0x3000, 0xFEFF]
      \<or> (0x2000 \<le> c \<and> c \<le> 0x200A))"

text \<open>The class \<open>[a-z0-9]\<close>.\<close>

definition isLowerAlnum :: "codeunit \<Rightarrow> bool" where
  "isLowerAlnum c = ((97 \<le> c \<and> c \<le> 122) \<or> (48 \<le> c \<and> c \<le> 57))"

text \<open>
  \<open>toLowerCase()\<close> and \<open>normalize('NFD')\<close> are built into the engine and follow its
  Unicode tables (lower-casing can change the length of a string and looks at the
  neighbours of a capital sigma; NFD decomposes and reorders). They are parameters.
\<close>

record unicode =
  toLowerCase :: "jsstring \<Rightarrow> jsstring"
  normalizeNFD :: "jsstring \<Rightarrow> jsstring"

text \<open>\<open>s.replace(/[\u0300-\u036f]/g, '')\<close>\<close>

definition stripCombiningMarks :: "jsstring \<Rightarrow> jsstring" where
  "stripCombiningMarks s = filter (\<lambda>c. \<not> (0x0300 \<le> c \<and> c \<le> 0x036F)) s"

text \<open>\<open>s.replace(/[^a-z0-9\s-]/g, '')\<close>\<close>

definition stripNonSlugChars :: "jsstring \<Rightarrow> jsstring" where
  "stripNonSlugChars s = filter (\<lambda>c. isLowerAlnum c \<or> isSpace c \<or> c = cu (CHR ''-'')) s"

text \<open>
  \<open>s.replace(/P+/g, r)\<close> for a character class \<open>P\<close> and a one-character replacement:
  every maximal run of \<open>P\<close>-characters becomes one \<open>r\<close>.
\<close>

function replaceRuns :: "('a \<Rightarrow> bool) \<Rightarrow> 'a \<Rightarrow> 'a list \<Rightarrow> 'a list" where
  "replaceRuns P r [] = []"
| "replaceRuns P r (c # cs) =
     (if P c then r # replaceRuns P r (dropWhile P cs) else c # replaceRuns P r cs)"
  by pat_completeness auto
termination
  by (relation "measure (\<lambda>(P, r, s). length s)")
     (auto simp: length_dropWhile_le le_imp_less_Suc)

definition trim :: "jsstring \<Rightarrow> jsstring" where
  "trim s = rev (dropWhile isSpace (rev (dropWhile isSpace s)))"

text \<open>\<open>slugify\<close> of utils.js.\<close>

definition slugify :: "unicode \<Rightarrow> jsstring \<Rightarrow> jsstring" where
  "slugify uc str =
     trim (replaceRuns (\<lambda>c. c = cu (CHR ''-'')) (cu (CHR ''-''))
       (replaceRuns isSpace (cu (CHR ''-''))
         (stripNonSlugChars (stripCombiningMarks (normalizeNFD uc (toLowerCase uc str))))))"

text \<open>Predicates describing the shape of a slug: slug characters and no doubled hyphen.\<close>

definition slugChar :: "codeunit \<Rightarrow> bool" where
  "slugChar c = (isLowerAlnum c \<or> c = cu (CHR ''-''))"

fun noDouble :: "'a \<Rightarrow> 'a list \<Rightarrow> bool" where
  "noDouble h [] = True"
| "noDouble h [c] = True"
| "noDouble h (c # d # cs) = (\<not> (c = h \<and> d = h) \<and> noDouble h (d # cs))"

text \<open>Decimal rendering of a non-negative integer, as \<open>String(n)\<close> prints it.\<close>

definition digitChar :: "nat \<Rightarrow> char" where
  "digitChar d = char_of (48 + d)"

fun showNat :: "nat \<Rightarrow> string" where
  "showNat n = (if n < 10 then [digitChar n] else showNat (n div 10) @ [digitChar (n mod 10)])"

declare showNat.simps [simp del]

subsection \<open>Stand-ins for the built-in case and normalisation tables\<close>

text \<open>
  For the worked examples: functions that agree with \<open>toLowerCase\<close> and
  \<open>normalize('NFD')\<close> on every string whose code units are all below U+0100 (Basic
  Latin and Latin-1 Supplement), and leave the other code units as they are.
\<close>

definition latin1Lower :: "codeunit \<Rightarrow> codeunit" where
  "latin1Lower c =
     (if (0x41 \<le> c \<and> c \<le> 0x5A) \<or> (0xC0 \<le> c \<and> c \<le> 0xDE \<and> c \<noteq> 0xD7) then c + 32 else c)"

definition latin1Decompositions :: "(codeunit \<times> jsstring) list" where
  "latin1Decompositions =
     [(0xC0, [0x41, 0x300]), (0xC1, [0x41, 0x301]), (0xC2, [0x41, 0x302]), (0xC3, [0x41, 0x303]),
      (0xC4, [0x41, 0x308]), (0xC5, [0x41, 0x30A]), (0xC7, [0x43, 0x327]), (0xC8, [0x45, 0x300]),
      (0xC9, [0x45, 0x301]), (0xCA, [0x45, 0x302]), (0xCB, [0x45, 0x308]), (0xCC, [0x49, 0x300]),
      (0xCD, [0x49, 0x301]), (0xCE, [0x49, 0x302]), (0xCF, [0x49, 0x308]), (0xD1, [0x4E, 0x303]),
      (0xD2, [0x4F, 0x300]), (0xD3, [0x4F, 0x301]), (0xD4, [0x4F, 0x302]), (0xD5, [0x4F, 0x303]),
      (0xD6, [0x4F, 0x308]), (0xD9, [0x55, 0x300]), (0xDA, [0x55, 0x301]), (0xDB, [0x55, 0x302]),
      (0xDC, [0x55, 0x308]), (0xDD, [0x59, 0x301]), (0xE0, [0x61, 0x300]), (0xE1, [0x61, 0x301]),
      (0xE2, [0x61, 0x302]), (0xE3, [0x61, 0x303]), (0xE4, [0x61, 0x308]), (0xE5, [0x61, 0x30A]),
      (0xE7, [0x63, 0x327]), (0xE8, [0x65, 0x300]), (0xE9, [0x65, 0x301]), (0xEA, [0x65, 0x302]),
      (0xEB, [0x65, 0x308]), (0xEC, [0x69, 0x300]), (0xED, [0x69, 0x301]), (0xEE, [0x69, 0x302]),
      (0xEF, [0x69, 0x308]), (0xF1, [0x6E, 0x303]), (0xF2, [0x6F, 0x300]), (0xF3, [0x6F, 0x301]),
      (0xF4, [0x6F, 0x302]), (0xF5, [0x6F, 0x303]), (0xF6, [0x6F, 0x308]), (0xF9, [0x75, 0x300]),
      (0xFA, [0x75, 0x301]), (0xFB, [0x75, 0x302]), (0xFC, [0x75, 0x308]), (0xFD, [0x79, 0x301]),
      (0xFF, [0x79, 0x308])]"

definition latin1Decompose :: "codeunit \<Rightarrow> jsstring" where
  "latin1Decompose c =
     (if c < 0xC0 then [c] else case map_of latin1Decompositions c of None \<Rightarrow> [c] | Some d \<Rightarrow> d)"

definition exampleUnicode :: unicode where
  "exampleUnicode =
     \<lparr>toLowerCase = map latin1Lower, normalizeNFD = (\<lambda>s. concat (map latin1Decompose s))\<rparr>"
section \<open>Heading identifiers (utils.js, \<open>addHeadingIds\<close>)\<close>

text \<open>
  The names every plain object inherits from \<open>Object.prototype\<close>. A lookup \<open>obj[k]\<close> on an
  object literal finds them when \<open>k\<close> is not an own property.
\<close>

definition objectPrototypeKeys :: "string list" where
  "objectPrototypeKeys =
     [''constructor'', ''__defineGetter__'', ''__defineSetter__'', ''hasOwnProperty'',
      ''__lookupGetter__'', ''__lookupSetter__'', ''isPrototypeOf'', ''propertyIsEnumerable'',
      ''toString'', ''valueOf'', ''__proto__'', ''toLocaleString'']"

definition inheritedProp :: "string \<Rightarrow> bool" where
  "inheritedProp k = (k \<in> set objectPrototypeKeys)"

text \<open>The same for a key given by its code units.\<close>

definition inheritedKey :: "jsstring \<Rightarrow> bool" where
  "inheritedKey k = (k \<in> set (map ascii objectPrototypeKeys))"

text \<open>
  The regular expression \<open>/<h([2-6])>([^<]*)<\/h[2-6]>/gi\<close> tried at the start of a string:
  the captured level and text, when it matches. A match consumes the nine code units of
  the two tags and the text, and the greedy \<open>[^<]*\<close> can only end at the next \<open><\<close>. With
  the flag \<open>i\<close> and without the flag \<open>u\<close> the letter \<open>h\<close> of the pattern matches \<open>h\<close> and \<open>H\<close> and
  no other code unit.
\<close>

definition isH :: "codeunit \<Rightarrow> bool" where
  "isH c = (c = cu (CHR ''h'') \<or> c = cu (CHR ''H''))"

definition isHeadingLevel :: "codeunit \<Rightarrow> bool" where
  "isHeadingLevel c = (cu (CHR ''2'') \<le> c \<and> c \<le> cu (CHR ''6''))"

definition matchHeading :: "jsstring \<Rightarrow> (codeunit \<times> jsstring) option" where
  "matchHeading s =
     (case s of
        a # b # l # c # rest \<Rightarrow>
          if a = cu (CHR ''<'') \<and> isH b \<and> isHeadingLevel l \<and> c = cu (CHR ''>'') then
            (let text = takeWhile (\<lambda>x. x \<noteq> cu (CHR ''<'')) rest in
             case drop (length text) rest of
               o1 # s1 # h1 # l1 # g1 # _ \<Rightarrow>
                 if o1 = cu (CHR ''<'') \<and> s1 = cu (CHR ''/'') \<and> isH h1 \<and> isHeadingLevel l1
                    \<and> g1 = cu (CHR ''>'')
                 then Some (l, text) else None
             | _ \<Rightarrow> None)
          else None
      | _ \<Rightarrow> None)"

text \<open>
  \<open>html.replace(regex, callback)\<close> with a global regular expression finds the matches from
  left to right, each search starting where the previous match ended, and calls the
  callback on them in that order. The scan is kept as a list of tokens.
\<close>

datatype htoken = Chr codeunit | Heading codeunit jsstring

function tokenizeHeadings :: "jsstring \<Rightarrow> htoken list" where
  "tokenizeHeadings [] = []"
| "tokenizeHeadings (c # cs) =
     (case matchHeading (c # cs) of
        Some (l, text) \<Rightarrow> Heading l text # tokenizeHeadings (drop (9 + length text) (c # cs))
      | None \<Rightarrow> Chr c # tokenizeHeadings cs)"
  by pat_completeness auto
termination
  by (relation "measure length") auto

declare tokenizeHeadings.simps [simp del]

text \<open>
  The callback. \<open>counter\<close> is an object literal holding numbers; \<open>counter[id]++\<close> on an
  inherited property converts a function to a number, which is \<open>NaN\<close>.
\<close>

datatype jsnum = Num nat | NaN

type_synonym counter = "jsstring \<rightharpoonup> jsnum"

definition showNum :: "jsnum \<Rightarrow> jsstring" where
  "showNum v = (case v of Num n \<Rightarrow> ascii (showNat n) | NaN \<Rightarrow> ascii ''NaN'')"

definition headingBaseId :: "unicode \<Rightarrow> jsstring \<Rightarrow> jsstring" where
  "headingBaseId uc text =
     trim (replaceRuns (\<lambda>c. c = cu (CHR ''-'')) (cu (CHR ''-''))
       (replaceRuns isSpace (cu (CHR ''-'')) (stripNonSlugChars (toLowerCase uc text))))"

definition counterTruthy :: "counter \<Rightarrow> jsstring \<Rightarrow> bool" where
  "counterTruthy cnt i =
     (case cnt i of Some (Num n) \<Rightarrow> n \<noteq> 0 | Some NaN \<Rightarrow> False | None \<Rightarrow> inheritedKey i)"

definition counterIncr :: "counter \<Rightarrow> jsstring \<Rightarrow> jsnum" where
  "counterIncr cnt i = (case cnt i of Some (Num n) \<Rightarrow> Num (n + 1) | Some NaN \<Rightarrow> NaN | None \<Rightarrow> NaN)"

definition nextId :: "unicode \<Rightarrow> counter \<Rightarrow> jsstring \<Rightarrow> jsstring \<times> counter" where
  "nextId uc cnt text =
     (let i = headingBaseId uc text in
      if counterTruthy cnt i then
        (let v = counterIncr cnt i in (i @ ascii ''-'' @ showNum v, cnt(i \<mapsto> v)))
      else (i, cnt(i \<mapsto> Num 1)))"

definition headingHtml :: "codeunit \<Rightarrow> jsstring \<Rightarrow> jsstring \<Rightarrow> jsstring" where
  \<open>headingHtml l i text =
     ascii ''<h'' @ [l] @ ascii '' id="'' @ i @ ascii ''">'' @ text @ ascii ''</h'' @ [l] @ ascii ''>''\<close>

fun renderTokens :: "unicode \<Rightarrow> counter \<Rightarrow> htoken list \<Rightarrow> jsstring" where
  "renderTokens uc cnt [] = []"
| "renderTokens uc cnt (Chr c # ts) = c # renderTokens uc cnt ts"
| "renderTokens uc cnt (Heading l text # ts) =
     (case nextId uc cnt text of (i, cnt') \<Rightarrow> headingHtml l i text @ renderTokens uc cnt' ts)"

definition addHeadingIds :: "unicode \<Rightarrow> jsstring \<Rightarrow> jsstring" where
  "addHeadingIds uc html = renderTokens uc Map.empty (tokenizeHeadings html)"

text \<open>The headings of a document in order, and the identifiers the callback gives them.\<close>

fun headingTextsOf :: "htoken list \<Rightarrow> jsstring list" where
  "headingTextsOf [] = []"
| "headingTextsOf (Chr c # ts) = headingTextsOf ts"
| "headingTextsOf (Heading l text # ts) = text # headingTextsOf ts"

fun idsFrom :: "unicode \<Rightarrow> counter \<Rightarrow> jsstring list \<Rightarrow> jsstring list" where
  "idsFrom uc cnt [] = []"
| "idsFrom uc cnt (text # ts) = (case nextId uc cnt text of (i, cnt') \<Rightarrow> i # idsFrom uc cnt' ts)"

definition headingTexts :: "jsstring \<Rightarrow> jsstring list" where
  "headingTexts html = headingTextsOf (tokenizeHeadings html)"

definition headingIds :: "unicode \<Rightarrow> jsstring \<Rightarrow> jsstring list" where
  "headingIds uc html = idsFrom uc Map.empty (headingTexts html)"

text \<open>The tokens written back with a given list of identifiers for the headings.\<close>

fun renderWithIds :: "htoken list \<Rightarrow> jsstring list \<Rightarrow> jsstring" where
  "renderWithIds [] ids = []"
| "renderWithIds (Chr c # ts) ids = c # renderWithIds ts ids"
| "renderWithIds (Heading l text # ts) [] = []"
| "renderWithIds (Heading l text # ts) (i # ids) = headingHtml l i text @ renderWithIds ts ids"

text \<open>
  The identifier in the words of the specification: the lower-cased text with every
  run of non-alphanumeric characters collapsed to one hyphen.
\<close>

definition specHeadingId :: "unicode \<Rightarrow> jsstring \<Rightarrow> jsstring" where
  "specHeadingId uc text =
     replaceRuns (\<lambda>c. \<not> isLowerAlnum c) (cu (CHR ''-'')) (toLowerCase uc text)"

text \<open>The position of a heading among the earlier headings with the same base identifier.\<close>

definition occurrence :: "unicode \<Rightarrow> jsstring list \<Rightarrow> nat \<Rightarrow> nat" where
  "occurrence uc texts j =
     Suc (length (filter (\<lambda>t. headingBaseId uc t = headingBaseId uc (texts ! j)) (take j texts)))"

text \<open>
  The identifiers one base identifier \<open>b\<close> can receive, numbered in the order in which the
  callback hands them out, and the number at which a counter state stands for \<open>b\<close>.
\<close>

definition emitId :: "jsstring \<Rightarrow> nat \<Rightarrow> jsstring" where
  "emitId b k =
     (if k = 0 then b @ ascii ''-NaN'' else if k = 1 then b else b @ ascii ''-'' @ ascii (showNat k))"

definition counterIndex :: "counter \<Rightarrow> jsstring \<Rightarrow> nat" where
  "counterIndex cnt b =
     (case cnt b of
        Some (Num n) \<Rightarrow> if n = 0 then 1 else n + 1
      | Some NaN \<Rightarrow> 1
      | None \<Rightarrow> if inheritedKey b then 0 else 1)"

definition readNat :: "string \<Rightarrow> nat" where
  "readNat s = foldl (\<lambda>a c. 10 * a + (of_char c - 48)) 0 s"

section \<open>Posts and related posts (utils.js, \<open>findRelatedPosts\<close>)\<close>

text \<open>
  The object \<open>parseMarkdownFile\<close> returns. \<open>tags\<close> is an array of strings in the order of the
  front matter, with repetitions kept; \<open>raw\<close> is the Markdown body.
\<close>

record post =
  slug :: string
  filePath :: string
  title :: string
  date :: string
  description :: string
  tags :: "string list"
  template :: string
  draft :: bool
  image :: string
  readingTime :: nat
  toc :: string
  content :: string
  raw :: string

text \<open>
  \<open>Array.prototype.sort\<close> with a comparison function is a stable sort: elements that
  compare as equal keep their order. Stable insertion with the comparison function
  gives that result.
\<close>

fun insertBy :: "('a \<Rightarrow> 'a \<Rightarrow> int) \<Rightarrow> 'a \<Rightarrow> 'a list \<Rightarrow> 'a list" where
  "insertBy cmp x [] = [x]"
| "insertBy cmp x (y # ys) = (if cmp x y \<le> 0 then x # y # ys else y # insertBy cmp x ys)"

definition sortBy :: "('a \<Rightarrow> 'a \<Rightarrow> int) \<Rightarrow> 'a list \<Rightarrow> 'a list" where
  "sortBy cmp xs = foldr (insertBy cmp) xs []"

definition startsWith :: "string \<Rightarrow> string \<Rightarrow> bool" where
  "startsWith s p = (take (length p) s = p)"

text \<open>
  \<open>findRelatedPosts(currentPost, allPosts, limit = 3)\<close>. \<open>limit\<close> is a count; the one call,
  in \<open>buildPost\<close>, leaves it at its default.
\<close>

definition findRelatedPosts :: "post \<Rightarrow> post list \<Rightarrow> nat \<Rightarrow> post list" where
  "findRelatedPosts currentPost allPosts limit =
     (if tags currentPost = [] then []
      else
        map fst
          (take limit
            (sortBy (\<lambda>a b. int (snd b) - int (snd a))
              (filter (\<lambda>item. snd item > 0)
                (map (\<lambda>p. (p, length (filter (\<lambda>tag. tag \<in> set (tags currentPost)) (tags p))))
                  (filter (\<lambda>p. slug p \<noteq> slug currentPost \<and> \<not> draft p \<and>
                               slug p \<noteq> ''index'' \<and> slug p \<noteq> ''about'' \<and>
                               \<not> startsWith (slug p) ''tags/'')
                     allPosts))))))"

definition defaultLimit :: nat where
  "defaultLimit = 3"

text \<open>
  The words of the specification: the number of tags of a post that the current post
  also carries, and the posts that may be related to the current one.
\<close>

definition sharedTags :: "post \<Rightarrow> post \<Rightarrow> nat" where
  "sharedTags cur p = length (filter (\<lambda>tag. tag \<in> set (tags cur)) (tags p))"

definition relatedCandidate :: "post \<Rightarrow> post \<Rightarrow> bool" where
  "relatedCandidate cur p =
     (slug p \<noteq> slug cur \<and> \<not> draft p \<and> slug p \<noteq> ''index'' \<and> slug p \<noteq> ''about'' \<and>
      \<not> startsWith (slug p) ''tags/'' \<and> sharedTags cur p > 0)"

text \<open>A post with the given slug and tags and empty text fields, for worked examples.\<close>

definition examplePost :: "string \<Rightarrow> string list \<Rightarrow> post" where
  "examplePost s ts =
     \<lparr>slug = s, filePath = ''pages/'' @ s @ ''.md'', title = s, date = ''2024-01-01'',
      description = '''', tags = ts, template = ''post'', draft = False, image = '''',
      readingTime = 1, toc = '''', content = '''', raw = ''''\<rparr>"

section \<open>The build cache (utils.js, \<open>getFileHash\<close>, \<open>needsRebuild\<close>)\<close>

text \<open>
  The file system maps a path to a regular file with its content or to a directory.
  \<open>fs.existsSync\<close> holds for both; \<open>fs.readFileSync\<close> of a directory throws.
\<close>

datatype fsnode = File string | Dir

type_synonym filesystem = "string \<rightharpoonup> fsnode"

datatype ioerror = EISDIR string | ENOENT string

text \<open>
  The values a hash comparison can meet: \<open>undefined\<close>, \<open>null\<close>, a string, and \<open>Other\<close> for
  every other value (a number, boolean, array or object of the parsed cache file, or a
  property inherited from \<open>Object.prototype\<close>). \<open>===\<close> holds between two equal strings,
  between \<open>null\<close> and \<open>null\<close> and between \<open>undefined\<close> and \<open>undefined\<close>.
\<close>

datatype jsval = Undefined | Null | Str string | Other

fun strictEquals :: "jsval \<Rightarrow> jsval \<Rightarrow> bool" where
  "strictEquals (Str a) (Str b) = (a = b)"
| "strictEquals Null Null = True"
| "strictEquals Undefined Undefined = True"
| "strictEquals _ _ = False"

text \<open>
  \<open>getFileHash(filePath)\<close>; the MD5 digest of \<open>crypto\<close> is the parameter \<open>md5\<close>.
\<close>

definition getFileHash :: "(string \<Rightarrow> string) \<Rightarrow> filesystem \<Rightarrow> string \<Rightarrow> ioerror + jsval" where
  "getFileHash md5 fs fpath =
     (case fs fpath of
        None \<Rightarrow> Inr Null
      | Some Dir \<Rightarrow> Inl (EISDIR fpath)
      | Some (File fileContent) \<Rightarrow> Inr (Str (md5 fileContent)))"

text \<open>
  The cache is the object \<open>JSON.parse\<close> made of the cache file (or \<open>{}\<close>): its own
  properties, none of them \<open>undefined\<close>. \<open>cache[filePath]\<close> reads an own property, else an
  inherited one, else \<open>undefined\<close>.
\<close>

type_synonym cache = "string \<rightharpoonup> jsval"

definition getProp :: "cache \<Rightarrow> string \<Rightarrow> jsval" where
  "getProp c k =
     (case c k of Some v \<Rightarrow> v | None \<Rightarrow> if inheritedProp k then Other else Undefined)"

definition needsRebuild :: "(string \<Rightarrow> string) \<Rightarrow> filesystem \<Rightarrow> string \<Rightarrow> cache \<Rightarrow> ioerror + bool" where
  "needsRebuild md5 fs fpath c =
     (case getFileHash md5 fs fpath of
        Inl e \<Rightarrow> Inl e
      | Inr currentHash \<Rightarrow> Inr (\<not> strictEquals currentHash (getProp c fpath)))"

section \<open>The template renderer (builder.js, \<open>renderTemplate\<close>)\<close>

text \<open>
  The values of a template data object: strings, non-negative integers
  (\<open>readingTime\<close>, \<open>postCount\<close>) and \<open>undefined\<close>. \<open>value || ''\<close> turns the falsy ones into the
  empty string, and \<open>String.prototype.replace\<close> converts a number to its decimal text.
\<close>

datatype tplval = VStr string | VNum nat | VUndefined

definition replacementOf :: "tplval \<Rightarrow> string" where
  "replacementOf v =
     (case v of VStr s \<Rightarrow> s | VNum n \<Rightarrow> if n = 0 then '''' else showNat n | VUndefined \<Rightarrow> '''')"

text \<open>
  A replacement given as a string is a replacement pattern: \<open>$$\<close> stands for a dollar
  sign, \<open>$&\<close> for the matched text, \<open>$`\<close> for the text before the match and \<open>$'\<close> for the
  text after it. The regular expression has no capture groups, so every other use of
  \<open>$\<close> stands for itself.
\<close>

fun expandReplacement :: "string \<Rightarrow> string \<Rightarrow> string \<Rightarrow> string \<Rightarrow> string" where
  "expandReplacement matched preceding following [] = []"
| "expandReplacement matched preceding following [c] = [c]"
| "expandReplacement matched preceding following (c # d # cs) =
     (if c = CHR ''$'' \<and> d = CHR ''$'' then CHR ''$'' # expandReplacement matched preceding following cs
      else if c = CHR ''$'' \<and> d = CHR ''&'' then matched @ expandReplacement matched preceding following cs
      else if c = CHR ''$'' \<and> d = CHR 0x60 then preceding @ expandReplacement matched preceding following cs
      else if c = CHR ''$'' \<and> d = CHR 0x27 then following @ expandReplacement matched preceding following cs
      else c # expandReplacement matched preceding following (d # cs))"

text \<open>
  \<open>new RegExp(`\\{\\{\\s*${key}\\s*\\}\\}`, 'g')\<close> tried at the start of a string: the length
  of the match. The key is the name of a property written as an identifier, so it is
  matched letter by letter, and neither \<open>\s*\<close> has to give back white space. Templates
  are kept as the bytes of their files; the white space around a key is matched as far
  as it is ASCII.
\<close>

definition isAsciiSpace :: "char \<Rightarrow> bool" where
  "isAsciiSpace c = (c \<in> set [CHR 0x09, CHR 0x0A, CHR 0x0B, CHR 0x0C, CHR 0x0D, CHR 0x20])"

definition matchPlaceholder :: "string \<Rightarrow> string \<Rightarrow> nat option" where
  "matchPlaceholder key s =
     (if take 2 s = ''{{'' then
        (let s1 = dropWhile isAsciiSpace (drop 2 s) in
         if startsWith s1 key then
           (let s2 = dropWhile isAsciiSpace (drop (length key) s1) in
            if take 2 s2 = ''}}'' then Some (length s - length s2 + 2) else None)
         else None)
      else None)"

text \<open>
  \<open>result.replace(placeholder, replacement)\<close> with the global flag: \<open>preceding\<close> is the part of
  the string already passed, which \<open>$`\<close> refers to.
\<close>

function replaceFrom :: "string \<Rightarrow> string \<Rightarrow> string \<Rightarrow> string \<Rightarrow> string" where
  "replaceFrom key repl preceding [] = []"
| "replaceFrom key repl preceding (c # cs) =
     (case matchPlaceholder key (c # cs) of
        Some n \<Rightarrow>
          expandReplacement (take n (c # cs)) preceding (drop n (c # cs)) repl
            @ replaceFrom key repl (preceding @ take n (c # cs)) (drop n (c # cs))
      | None \<Rightarrow> c # replaceFrom key repl (preceding @ [c]) cs)"
  by pat_completeness auto
termination
  by (relation "measure (\<lambda>(key, repl, preceding, s). length s)")
     (auto simp: matchPlaceholder_def Let_def split: if_splits)

declare replaceFrom.simps [simp del]

text \<open>
  \<open>renderTemplate(template, data)\<close>: one global replacement for each entry of the data, in
  the order of \<open>Object.entries\<close>, each working on the result of the one before it.
\<close>

definition renderTemplate :: "string \<Rightarrow> (string \<times> tplval) list \<Rightarrow> string" where
  "renderTemplate tpl data =
     foldl (\<lambda>result (key, v). replaceFrom key (replacementOf v) [] result) tpl data"

section \<open>Paths and the request sanitizer (server.js, \<open>sanitizePath\<close>)\<close>

subsection \<open>The POSIX functions of the \<open>path\<close> module\<close>

fun splitSlash :: "string \<Rightarrow> string list" where
  "splitSlash [] = [[]]"
| "splitSlash (c # cs) =
     (if c = CHR ''/'' then [] # splitSlash cs
      else (case splitSlash cs of [] \<Rightarrow> [[c]] | seg # segs \<Rightarrow> (c # seg) # segs))"

fun joinSlash :: "string list \<Rightarrow> string" where
  "joinSlash [] = []"
| "joinSlash [seg] = seg"
| "joinSlash (seg # segs) = seg @ ''/'' @ joinSlash segs"

text \<open>
  \<open>normalizeString(path, allowAboveRoot)\<close> walks through the segments of the path: an
  empty segment and \<open>.\<close> are dropped, \<open>..\<close> removes the segment before it unless there
  is none or it is \<open>..\<close> itself, in which case \<open>..\<close> is kept when the path may rise above
  its root and dropped otherwise.
\<close>

definition normalizeStep :: "bool \<Rightarrow> string list \<Rightarrow> string \<Rightarrow> string list" where
  "normalizeStep allowAboveRoot res seg =
     (if seg = '''' \<or> seg = ''.'' then res
      else if seg = ''..'' then
        (if res \<noteq> [] \<and> last res \<noteq> ''..'' then butlast res
         else if allowAboveRoot then res @ [''..''] else res)
      else res @ [seg])"

definition normalizeSegments :: "bool \<Rightarrow> string list \<Rightarrow> string list" where
  "normalizeSegments allowAboveRoot segs = foldl (normalizeStep allowAboveRoot) [] segs"

definition normalizeString :: "string \<Rightarrow> bool \<Rightarrow> string" where
  "normalizeString path allowAboveRoot =
     joinSlash (normalizeSegments allowAboveRoot (splitSlash path))"

definition isAbsolute :: "string \<Rightarrow> bool" where
  "isAbsolute path = (path \<noteq> [] \<and> hd path = CHR ''/'')"

definition normalize :: "string \<Rightarrow> string" where
  "normalize path =
     (if path = [] then ''.''
      else
        (let trailingSeparator = (last path = CHR ''/'');
             p = normalizeString path (\<not> isAbsolute path)
         in if p = [] then (if isAbsolute path then ''/'' else if trailingSeparator then ''./'' else ''.'')
            else (let q = (if trailingSeparator then p @ ''/'' else p)
                  in if isAbsolute path then ''/'' @ q else q)))"

definition pathJoin :: "string list \<Rightarrow> string" where
  "pathJoin args =
     (let parts = filter (\<lambda>arg. arg \<noteq> []) args
      in if parts = [] then ''.'' else normalize (joinSlash parts))"

text \<open>
  \<open>path.resolve(path)\<close> with one argument; \<open>cwd\<close> is the working directory of the process,
  which \<open>resolve\<close> puts in front of a relative path.
\<close>

definition pathResolve :: "string \<Rightarrow> string \<Rightarrow> string" where
  "pathResolve cwd path =
     (let r1 = (if path = [] then [] else path @ ''/'');
          abs1 = isAbsolute path;
          r2 = (if abs1 \<or> cwd = [] then r1 else cwd @ ''/'' @ r1);
          resolvedAbsolute = (if abs1 \<or> cwd = [] then abs1 else isAbsolute cwd);
          resolvedPath = normalizeString r2 (\<not> resolvedAbsolute)
      in if resolvedAbsolute then ''/'' @ resolvedPath
         else if resolvedPath \<noteq> [] then resolvedPath else ''.'')"

text \<open>
  \<open>path.extname(path)\<close>: the part of the last segment from its last dot on; empty when the
  segment has no dot, starts with its only dot, or is \<open>..\<close>. Slashes at the end are not
  part of the last segment.
\<close>

definition extname :: "string \<Rightarrow> string" where
  "extname path =
     (let trimmed = rev (dropWhile (\<lambda>c. c = CHR ''/'') (rev path));
          base = rev (takeWhile (\<lambda>c. c \<noteq> CHR ''/'') (rev trimmed));
          ext = rev (takeWhile (\<lambda>c. c \<noteq> CHR ''.'') (rev base))
      in if CHR ''.'' \<notin> set base \<or> length base = length ext + 1 \<or> base = ''..'' then ''''
         else ''.'' @ ext)"

subsection \<open>\<open>decodeURIComponent\<close>\<close>

text \<open>
  Every \<open>%\<close> must be followed by two hexadecimal digits, and the bytes written as
  escapes must be ASCII or form well-formed UTF-8 sequences; otherwise the function
  throws \<open>URIError\<close>, which is \<open>None\<close> here. A decoded code point outside ASCII is kept as
  its UTF-8 bytes.
\<close>

definition hexVal :: "char \<Rightarrow> nat option" where
  "hexVal c =
     (let n = (of_char c :: nat) in
      if 48 \<le> n \<and> n \<le> 57 then Some (n - 48)
      else if 65 \<le> n \<and> n \<le> 70 then Some (n - 55)
      else if 97 \<le> n \<and> n \<le> 102 then Some (n - 87)
      else None)"

datatype uriunit = Lit char | Esc nat

fun uriUnits :: "string \<Rightarrow> uriunit list option" where
  "uriUnits [] = Some []"
| "uriUnits (c # cs) =
     (if c = CHR ''%'' then
        (case cs of
           h1 # h2 # rest \<Rightarrow>
             (case (hexVal h1, hexVal h2) of
                (Some a, Some b) \<Rightarrow> map_option (\<lambda>us. Esc (16 * a + b) # us) (uriUnits rest)
              | _ \<Rightarrow> None)
         | _ \<Rightarrow> None)
      else map_option (\<lambda>us. Lit c # us) (uriUnits cs))"

definition leadingOnes :: "nat \<Rightarrow> nat" where
  "leadingOnes b =
     (if b < 128 then 0 else if b < 192 then 1 else if b < 224 then 2
      else if b < 240 then 3 else if b < 248 then 4 else 5)"

definition isCont :: "nat \<Rightarrow> bool" where
  "isCont b = (128 \<le> b \<and> b \<le> 191)"

fun validUtf8 :: "nat list \<Rightarrow> bool" where
  "validUtf8 [b0, b1] = (194 \<le> b0 \<and> b0 \<le> 223 \<and> isCont b1)"
| "validUtf8 [b0, b1, b2] =
     ((b0 = 224 \<and> 160 \<le> b1 \<and> b1 \<le> 191 \<and> isCont b2) \<or>
      (225 \<le> b0 \<and> b0 \<le> 236 \<and> isCont b1 \<and> isCont b2) \<or>
      (b0 = 237 \<and> 128 \<le> b1 \<and> b1 \<le> 159 \<and> isCont b2) \<or>
      (238 \<le> b0 \<and> b0 \<le> 239 \<and> isCont b1 \<and> isCont b2))"
| "validUtf8 [b0, b1, b2, b3] =
     ((b0 = 240 \<and> 144 \<le> b1 \<and> b1 \<le> 191 \<and> isCont b2 \<and> isCont b3) \<or>
      (241 \<le> b0 \<and> b0 \<le> 243 \<and> isCont b1 \<and> isCont b2 \<and> isCont b3) \<or>
      (b0 = 244 \<and> 128 \<le> b1 \<and> b1 \<le> 143 \<and> isCont b2 \<and> isCont b3))"
| "validUtf8 _ = False"

fun escValues :: "uriunit list \<Rightarrow> nat list option" where
  "escValues [] = Some []"
| "escValues (Esc b # us) = map_option (\<lambda>bs. b # bs) (escValues us)"
| "escValues (Lit c # us) = None"

function decodeUnits :: "uriunit list \<Rightarrow> string option" where
  "decodeUnits [] = Some []"
| "decodeUnits (Lit c # us) = map_option (\<lambda>s. c # s) (decodeUnits us)"
| "decodeUnits (Esc b # us) =
     (let n = leadingOnes b in
      if n = 0 then map_option (\<lambda>s. char_of b # s) (decodeUnits us)
      else if n = 1 \<or> n > 4 \<or> length us < n - 1 then None
      else
        (case escValues (take (n - 1) us) of
           None \<Rightarrow> None
         | Some octets \<Rightarrow>
             if validUtf8 (b # octets)
             then map_option (\<lambda>s. map char_of (b # octets) @ s) (decodeUnits (drop (n - 1) us))
             else None))"
  by pat_completeness auto
termination
  by (relation "measure length") auto

definition decodeURIComponent :: "string \<Rightarrow> string option" where
  "decodeURIComponent s = (case uriUnits s of None \<Rightarrow> None | Some us \<Rightarrow> decodeUnits us)"

subsection \<open>\<open>sanitizePath\<close> and the route of a request\<close>

fun strIncludes :: "string \<Rightarrow> string \<Rightarrow> bool" where
  "strIncludes [] sub = (sub = [])"
| "strIncludes (c # cs) sub = (startsWith (c # cs) sub \<or> strIncludes cs sub)"

definition sanitizePath :: "string \<Rightarrow> string \<Rightarrow> string \<Rightarrow> string option" where
  "sanitizePath cwd urlPath outputDir =
     (case decodeURIComponent urlPath of
        None \<Rightarrow> None
      | Some decoded \<Rightarrow>
          if strIncludes decoded ''..'' \<or> strIncludes decoded ''//'' \<or> strIncludes decoded [CHR 0x5C]
          then None
          else
            (let realPath = pathResolve cwd (pathJoin [outputDir, decoded])
             in if \<not> startsWith realPath (pathResolve cwd outputDir) then None
                else Some realPath))"

text \<open>
  The request handler of \<open>startDevServer\<close> up to the choice of the file: the event
  stream, the response 403, or the file path that the rest of the handler looks up in
  the file cache and on disk. That rest reads no other path than this one and, for a
  missing file, \<open>404.html\<close> in the output directory.
\<close>

datatype route = LiveReload | Forbidden | ServeFile string

definition requestPath :: "string \<Rightarrow> string" where
  "requestPath url =
     (let urlPath = (if url = ''/'' then ''/index.html'' else url)
      in if extname urlPath = [] then urlPath @ ''.html'' else urlPath)"

definition requestRoute :: "string \<Rightarrow> string \<Rightarrow> string \<Rightarrow> route" where
  "requestRoute cwd projectDir reqUrl =
     (let outputDir = pathJoin [projectDir, ''public''];
          url = takeWhile (\<lambda>c. c \<noteq> CHR ''?'') reqUrl
      in if url = ''/__live-reload'' then LiveReload
         else
           (case sanitizePath cwd (requestPath url) outputDir of
              None \<Rightarrow> Forbidden
            | Some fpath \<Rightarrow> ServeFile fpath))"

text \<open>A path lies inside a root directory: it is the root or continues it after a slash.\<close>

definition insideRoot :: "string \<Rightarrow> string \<Rightarrow> bool" where
  "insideRoot root p = (p = root \<or> startsWith p (if root = ''/'' then root else root @ ''/''))"

text \<open>
  The segments of the absolute path that \<open>path.resolve\<close> computes for a path, given the
  segments of the working directory.
\<close>

definition cwdSegments :: "string \<Rightarrow> string list" where
  "cwdSegments cwd = normalizeSegments False (splitSlash cwd)"

definition resolveSegments :: "string \<Rightarrow> string \<Rightarrow> string list" where
  "resolveSegments cwd path =
     foldl (normalizeStep False) (if isAbsolute path then [] else cwdSegments cwd) (splitSlash path)"

definition plainSegment :: "string \<Rightarrow> bool" where
  "plainSegment seg = (seg \<noteq> '''' \<and> seg \<noteq> ''.'' \<and> seg \<noteq> ''..'')"

section \<open>Dates of the JavaScript runtime\<close>

text \<open>
  A time value is a number of milliseconds since 1970-01-01T00:00:00Z. The civil date
  of a day number follows the proleptic Gregorian calendar, as \<open>YearFromTime\<close>,
  \<open>MonthFromTime\<close> and \<open>DateFromTime\<close> of the language standard do.
\<close>

definition msPerDay :: int where
  "msPerDay = 86400000"

definition civilFromDays :: "int \<Rightarrow> int \<times> int \<times> int" where
  "civilFromDays days =
     (let z = days + 719468;
          era = z div 146097;
          doe = z - era * 146097;
          yoe = (doe - doe div 1460 + doe div 36524 - doe div 146096) div 365;
          doy = doe - (365 * yoe + yoe div 4 - yoe div 100);
          mp = (5 * doy + 2) div 153;
          d = doy - (153 * mp + 2) div 5 + 1;
          m = (if mp < 10 then mp + 3 else mp - 9);
          y = yoe + era * 400 + (if m \<le> 2 then 1 else 0)
      in (y, m, d))"

definition padNat :: "nat \<Rightarrow> nat \<Rightarrow> string" where
  "padNat width n = replicate (width - length (showNat n)) (CHR ''0'') @ showNat n"

definition weekdayName :: "int \<Rightarrow> string" where
  "weekdayName days =
     [''Sun'', ''Mon'', ''Tue'', ''Wed'', ''Thu'', ''Fri'', ''Sat''] ! nat ((days + 4) mod 7)"

definition monthName :: "int \<Rightarrow> string" where
  "monthName m =
     [''Jan'', ''Feb'', ''Mar'', ''Apr'', ''May'', ''Jun'',
      ''Jul'', ''Aug'', ''Sep'', ''Oct'', ''Nov'', ''Dec''] ! nat ((m - 1) mod 12)"

definition timeOfDay :: "int \<Rightarrow> string" where
  "timeOfDay ms =
     (let t = ms mod msPerDay
      in padNat 2 (nat (t div 3600000)) @ '':'' @ padNat 2 (nat (t div 60000 mod 60)) @ '':'' @
         padNat 2 (nat (t div 1000 mod 60)))"

text \<open>\<open>Date.prototype.toUTCString\<close>, for example \<open>Thu, 01 Jan 1970 00:00:00 GMT\<close>.\<close>

definition toUTCString :: "int \<Rightarrow> string" where
  "toUTCString ms =
     (let days = ms div msPerDay in
      case civilFromDays days of
        (y, m, d) \<Rightarrow>
          weekdayName days @ '', '' @ padNat 2 (nat d) @ '' '' @ monthName m @ '' '' @
          (if y < 0 then ''-'' else '''') @ padNat 4 (nat \<bar>y\<bar>) @ '' '' @ timeOfDay ms @ '' GMT'')"

text \<open>\<open>Date.prototype.toISOString\<close>, for example \<open>1970-01-01T00:00:00.000Z\<close>.\<close>

definition toISOString :: "int \<Rightarrow> string" where
  "toISOString ms =
     (case civilFromDays (ms div msPerDay) of
        (y, m, d) \<Rightarrow>
          (if 0 \<le> y \<and> y \<le> 9999 then padNat 4 (nat y)
           else (if y < 0 then ''-'' else ''+'') @ padNat 6 (nat \<bar>y\<bar>)) @
          ''-'' @ padNat 2 (nat m) @ ''-'' @ padNat 2 (nat d) @ ''T'' @ timeOfDay ms @ ''.'' @
          padNat 3 (nat (ms mod 1000)) @ ''Z'')"

section \<open>The site builder (builder.js) and the generators of utils.js\<close>

subsection \<open>Configuration, front matter and library functions\<close>

text \<open>The configuration object that \<open>loadConfig\<close> returns.\<close>

record siteConfig =
  cfgTitle :: string
  cfgDescription :: string
  siteUrl :: string
  author :: string
  postsPerPage :: nat
  language :: string

text \<open>The recognised keys of the front matter of a page.\<close>

datatype tagsField = NoTags | TagString string | TagList "string list"

record frontmatter =
  fmTitle :: "string option"
  fmDate :: "string option"
  fmDescription :: "string option"
  fmTags :: tagsField
  fmTemplate :: "string option"
  fmDraft :: bool
  fmImage :: "string option"

text \<open>
  Functions the build calls and that are parameters here: the MD5 digest of \<open>crypto\<close>,
  the front-matter parser \<open>gray-matter\<close>, the Markdown converter \<open>marked\<close>, the time
  value of \<open>new Date(text)\<close> (\<open>None\<close> for an invalid date) and \<open>toLocaleDateString\<close> of the
  runtime, and \<open>generateTOC\<close> of utils.js, a function of the HTML alone whose result
  fills the \<open>toc\<close> placeholder.

  The builder keeps a text as the bytes that the files hold (\<^typ>\<open>string\<close>, UTF-8 in a
  file). Node converts between these bytes and the code units of a JavaScript string
  when it reads and writes a file; the two conversions are the parameters \<open>libDecode\<close>
  and \<open>libEncode\<close>, and they are applied where the builder calls a function of utils.js
  that looks at the characters of a string. \<open>libUnicode\<close> holds the case and
  normalisation functions of the engine.
\<close>

record library =
  libMd5 :: "string \<Rightarrow> string"
  libMatter :: "string \<Rightarrow> frontmatter \<times> string"
  libMarked :: "string \<Rightarrow> string"
  libGenerateTOC :: "string \<Rightarrow> string"
  libDateValue :: "string \<Rightarrow> int option"
  libLocaleDate :: "int option \<Rightarrow> string \<Rightarrow> string"
  libUnicode :: unicode
  libDecode :: "string \<Rightarrow> jsstring"
  libEncode :: "jsstring \<Rightarrow> string"

text \<open>\<open>slugify\<close>, \<open>trim\<close> and \<open>addHeadingIds\<close> applied to a text of the builder.\<close>

definition slugifyText :: "library \<Rightarrow> string \<Rightarrow> string" where
  "slugifyText lib s = libEncode lib (slugify (libUnicode lib) (libDecode lib s))"

definition trimText :: "library \<Rightarrow> string \<Rightarrow> string" where
  "trimText lib s = libEncode lib (trim (libDecode lib s))"

definition addHeadingIdsText :: "library \<Rightarrow> string \<Rightarrow> string" where
  "addHeadingIdsText lib html = libEncode lib (addHeadingIds (libUnicode lib) (libDecode lib html))"

datatype buildError = ReadError ioerror | TypeError | RangeError | NoTermination

definition bindE :: "buildError + 'a \<Rightarrow> ('a \<Rightarrow> buildError + 'b) \<Rightarrow> buildError + 'b" where
  "bindE m f = (case m of Inl e \<Rightarrow> Inl e | Inr x \<Rightarrow> f x)"

text \<open>\<open>formatDate(dateStr, locale)\<close> of utils.js.\<close>

definition formatDate :: "library \<Rightarrow> string \<Rightarrow> string \<Rightarrow> string" where
  "formatDate lib dateStr locale = libLocaleDate lib (libDateValue lib dateStr) locale"

definition dateUTCString :: "library \<Rightarrow> string \<Rightarrow> string" where
  "dateUTCString lib dateStr =
     (case libDateValue lib dateStr of None \<Rightarrow> ''Invalid Date'' | Some ms \<Rightarrow> toUTCString ms)"

text \<open>
  The comparison function \<open>(a, b) => new Date(b.date) - new Date(a.date)\<close>; a difference
  that is \<open>NaN\<close> counts as zero in a sort.
\<close>

definition byDateDesc :: "library \<Rightarrow> post \<Rightarrow> post \<Rightarrow> int" where
  "byDateDesc lib a b =
     (case (libDateValue lib (date b), libDateValue lib (date a)) of
        (Some x, Some y) \<Rightarrow> x - y
      | _ \<Rightarrow> 0)"

subsection \<open>Escaping\<close>

definition replaceChar :: "char \<Rightarrow> string \<Rightarrow> string \<Rightarrow> string" where
  "replaceChar c rep s = concat (map (\<lambda>x. if x = c then rep else [x]) s)"

definition escapeHtml :: "string \<Rightarrow> string" where
  \<open>escapeHtml str =
     (if str = [] then []
      else replaceChar (CHR 0x27) ''&#039;''
             (replaceChar (CHR 0x22) ''&quot;''
               (replaceChar (CHR ''>'') ''&gt;''
                 (replaceChar (CHR ''<'') ''&lt;''
                   (replaceChar (CHR ''&'') ''&amp;'' str)))))\<close>

definition escapeXml :: "string \<Rightarrow> string" where
  \<open>escapeXml str =
     (if str = [] then []
      else replaceChar (CHR 0x27) ''&apos;''
             (replaceChar (CHR 0x22) ''&quot;''
               (replaceChar (CHR ''>'') ''&gt;''
                 (replaceChar (CHR ''<'') ''&lt;''
                   (replaceChar (CHR ''&'') ''&amp;'' str)))))\<close>

subsection \<open>Parsing a page (\<open>parseMarkdownFile\<close>)\<close>

text \<open>\<open>s.split(/\s+/)\<close> and \<open>s.split(c)\<close> for a character \<open>c\<close>.\<close>

function splitSpaces :: "jsstring \<Rightarrow> jsstring list" where
  "splitSpaces [] = [[]]"
| "splitSpaces (c # cs) =
     (if isSpace c then [] # splitSpaces (dropWhile isSpace cs)
      else (case splitSpaces cs of [] \<Rightarrow> [[c]] | w # ws \<Rightarrow> (c # w) # ws))"
  by pat_completeness auto
termination
  by (relation "measure length") (auto simp: length_dropWhile_le le_imp_less_Suc)

fun splitOn :: "char \<Rightarrow> string \<Rightarrow> string list" where
  "splitOn sep [] = [[]]"
| "splitOn sep (c # cs) =
     (if c = sep then [] # splitOn sep cs
      else (case splitOn sep cs of [] \<Rightarrow> [[c]] | w # ws \<Rightarrow> (c # w) # ws))"

definition calculateReadingTime :: "jsstring \<Rightarrow> nat" where
  "calculateReadingTime text =
     (let wordsPerMinute = 200;
          words = length (splitSpaces (trim text))
      in (words + wordsPerMinute - 1) div wordsPerMinute)"

text \<open>\<open>value || fallback\<close> for an optional string: the empty string is falsy.\<close>

definition orElse :: "string option \<Rightarrow> string \<Rightarrow> string" where
  "orElse v fallback = (case v of None \<Rightarrow> fallback | Some s \<Rightarrow> if s = [] then fallback else s)"

definition parseTags :: "library \<Rightarrow> tagsField \<Rightarrow> string list" where
  "parseTags lib f =
     (case f of
        NoTags \<Rightarrow> []
      | TagString s \<Rightarrow> if s = [] then [] else map (trimText lib) (splitOn (CHR '','') s)
      | TagList ts \<Rightarrow> ts)"

text \<open>
  The slug: the path of the file relative to the pages directory, without a final
  \<open>.md\<close> and with every backslash turned into a slash.
\<close>

definition stripMd :: "string \<Rightarrow> string" where
  "stripMd s = (if startsWith (rev s) (rev ''.md'') then take (length s - 3) s else s)"

definition slugOf :: "string \<Rightarrow> string" where
  "slugOf file = map (\<lambda>c. if c = CHR 0x5C then CHR ''/'' else c) (stripMd (normalize file))"

text \<open>
  \<open>parseMarkdownFile\<close> applied to the content of the file; \<open>now\<close> is the time value of
  \<open>new Date()\<close> at the moment of the call, which dates a page without a date.
\<close>

definition parseMarkdownFile :: "library \<Rightarrow> int \<Rightarrow> string \<Rightarrow> string \<Rightarrow> string \<Rightarrow> post" where
  "parseMarkdownFile lib now pagesDir file fileContent =
     (case libMatter lib fileContent of
        (fm, markdown) \<Rightarrow>
          (let html = addHeadingIdsText lib (libMarked lib markdown) in
           \<lparr>slug = slugOf file,
            filePath = pathJoin [pagesDir, file],
            title = orElse (fmTitle fm) ''Untitled'',
            date = orElse (fmDate fm) (toISOString now),
            description = orElse (fmDescription fm) [],
            tags = parseTags lib (fmTags fm),
            template = orElse (fmTemplate fm) ''post'',
            draft = fmDraft fm,
            image = orElse (fmImage fm) [],
            readingTime = calculateReadingTime (libDecode lib markdown),
            toc = libGenerateTOC lib html,
            content = html,
            raw = markdown\<rparr>))"

subsection \<open>HTML fragments\<close>

definition generateMetaTags :: "post \<Rightarrow> siteConfig \<Rightarrow> string" where
  \<open>generateMetaTags p config =
     (let ttl = escapeHtml (title p);
          descr = escapeHtml (description p);
          pageUrl = siteUrl config @ ''/'' @ slug p @ ''.html'';
          imageUrl = (if image p \<noteq> [] then siteUrl config @ ''/'' @ image p else [])
      in ''\<newline>    <meta name="description" content="'' @ descr @ ''">\<newline>    <meta name="author" content="'' @ escapeHtml (author config) @ ''">\<newline>    \<newline>    <!-- Open Graph -->\<newline>    <meta property="og:title" content="'' @ ttl @ ''">\<newline>    <meta property="og:description" content="'' @ descr @ ''">\<newline>    <meta property="og:type" content="article">\<newline>    <meta property="og:url" content="'' @ pageUrl @ ''">\<newline>    '' @ (if imageUrl \<noteq> [] then ''<meta property="og:image" content="'' @ imageUrl @ ''">'' else []) @ ''\<newline>    \<newline>    <!-- Twitter Card -->\<newline>    <meta name="twitter:card" content="summary_large_image">\<newline>    <meta name="twitter:title" content="'' @ ttl @ ''">\<newline>    <meta name="twitter:description" content="'' @ descr @ ''">\<newline>    '' @ (if imageUrl \<noteq> [] then ''<meta name="twitter:image" content="'' @ imageUrl @ ''">'' else []) @ ''\<newline>  '')\<close>

definition getProgressBarCode :: string where
  \<open>getProgressBarCode = ''<style>.reading-progress{position:fixed;top:0;left:0;width:0;height:4px;background:linear-gradient(90deg,#667eea 0%,#764ba2 100%);z-index:9999;transition:width .1s ease-out}</style><div class="reading-progress" id="reading-progress"></div><script>!function(){var e=document.getElementById("reading-progress");function t(){var t=window.scrollY,n=document.documentElement.scrollHeight-window.innerHeight;e.style.width=(n>0?t/n*100:0)+"%"}window.addEventListener("scroll",t),window.addEventListener("resize",t),t()}();</script>''\<close>

definition generateRelatedPostsHtml :: "post list \<Rightarrow> string" where
  \<open>generateRelatedPostsHtml relatedPosts =
     (if relatedPosts = [] then []
      else ''<section class="related-posts"><h3>Related Posts</h3><ul>'' @
           concat (map (\<lambda>p. ''<li><a href="/'' @ slug p @ ''.html">'' @ escapeHtml (title p) @ ''</a></li>'') relatedPosts) @
           ''</ul></section>'')\<close>

definition generatePostsListHtml :: "library \<Rightarrow> post list \<Rightarrow> siteConfig \<Rightarrow> string" where
  \<open>generatePostsListHtml lib posts config =
     (let sortedPosts =
            sortBy (byDateDesc lib)
              (filter (\<lambda>p. \<not> draft p \<and> slug p \<noteq> ''index'' \<and> slug p \<noteq> ''about'' \<and>
                           \<not> startsWith (slug p) ''tags/'') posts)
      in if sortedPosts = [] then ''<p>No posts yet.</p>''
         else ''<ul class="posts-list">'' @
              concat (map (\<lambda>p. ''\<newline>      <li class="post-item">\<newline>        <a href="/'' @ slug p @ ''.html" class="post-title">'' @ escapeHtml (title p) @ ''</a>\<newline>        <span class="post-date">'' @ formatDate lib (date p) (language config) @ ''</span>\<newline>        <span class="post-reading-time">'' @ showNat (readingTime p) @ '' min read</span>\<newline>        '' @ (if description p \<noteq> [] then ''<p class="post-description">'' @ escapeHtml (description p) @ ''</p>'' else []) @ ''\<newline>      </li>\<newline>    '') sortedPosts) @
              ''</ul>'')\<close>

text \<open>
  An object used as a table from strings to values: the entries in the order of their
  first insertion. \<open>Object.entries\<close> lists the keys that are array indices first, in
  ascending numeric order, and the other keys after them in the order of insertion.
\<close>

definition isDigit :: "char \<Rightarrow> bool" where
  "isDigit c = (let n = (of_char c :: nat) in 48 \<le> n \<and> n \<le> 57)"

definition isArrayIndex :: "string \<Rightarrow> bool" where
  "isArrayIndex s =
     (s \<noteq> [] \<and> list_all isDigit s \<and> (s = ''0'' \<or> hd s \<noteq> CHR ''0'') \<and> readNat s < 4294967295)"

definition objectEntries :: "(string \<times> 'a) list \<Rightarrow> (string \<times> 'a) list" where
  "objectEntries entries =
     sortBy (\<lambda>a b. int (readNat (fst a)) - int (readNat (fst b)))
       (filter (\<lambda>e. isArrayIndex (fst e)) entries)
     @ filter (\<lambda>e. \<not> isArrayIndex (fst e)) entries"

fun upsert :: "string \<Rightarrow> ('a \<Rightarrow> 'a) \<Rightarrow> 'a \<Rightarrow> (string \<times> 'a) list \<Rightarrow> (string \<times> 'a) list" where
  "upsert k f v0 [] = [(k, v0)]"
| "upsert k f v0 ((k', v) # es) = (if k' = k then (k', f v) # es else (k', v) # upsert k f v0 es)"

text \<open>
  \<open>generateTagsListHtml\<close>. The counts are numbers for the tags that are no names of
  inherited properties; a pass with such a tag on a page that is no draft ends with a
  \<open>TypeError\<close> in \<open>buildTagPages\<close>.
\<close>

definition tagCountsOf :: "post list \<Rightarrow> (string \<times> nat) list" where
  "tagCountsOf posts =
     foldl (\<lambda>tagCounts tag. upsert tag Suc 1 tagCounts) []
       (concat (map tags (filter (\<lambda>p. \<not> draft p) posts)))"

definition generateTagsListHtml :: "library \<Rightarrow> post list \<Rightarrow> string" where
  \<open>generateTagsListHtml lib posts =
     (let sortedTags = sortBy (\<lambda>a b. int (snd b) - int (snd a)) (objectEntries (tagCountsOf posts));
          showCount = showNat
      in ''<ul class="tags-list">'' @
         concat (map (\<lambda>(tag, n). ''<li><a href="/tags/'' @ slugifyText lib tag @ ''.html">'' @ escapeHtml tag @ '' ('' @ showCount n @ '')</a></li>'') sortedTags) @
         ''</ul>'')\<close>

subsection \<open>Building one page (\<open>buildPost\<close>)\<close>

text \<open>
  \<open>templates[name]\<close> on the object of loaded templates: a text, nothing, or an inherited
  property, which is truthy and no string.
\<close>

datatype tplChoice = NoTemplate | Template string | NotAString

definition lookupTemplate :: "(string \<rightharpoonup> string) \<Rightarrow> string \<Rightarrow> tplChoice" where
  "lookupTemplate templates name =
     (case templates name of
        Some t \<Rightarrow> if t = [] then NoTemplate else Template t
      | None \<Rightarrow> if inheritedProp name then NotAString else NoTemplate)"

definition orTemplate :: "tplChoice \<Rightarrow> tplChoice \<Rightarrow> tplChoice" where
  "orTemplate a b = (case a of NoTemplate \<Rightarrow> b | _ \<Rightarrow> a)"

fun intercalate :: "string \<Rightarrow> string list \<Rightarrow> string" where
  "intercalate sep [] = []"
| "intercalate sep [s] = s"
| "intercalate sep (s # ss) = s @ sep @ intercalate sep ss"

definition postTemplateData :: "library \<Rightarrow> post \<Rightarrow> post list \<Rightarrow> siteConfig \<Rightarrow> (string \<times> tplval) list" where
  \<open>postTemplateData lib p allPosts config =
     (let relatedPosts = findRelatedPosts p allPosts defaultLimit;
          relatedPostsHtml = generateRelatedPostsHtml relatedPosts;
          metaTags = generateMetaTags p config;
          progressBar = getProgressBarCode;
          tagsHtml =
            (if tags p \<noteq> [] then
               ''<div class="post-tags">'' @
               intercalate '' '' (map (\<lambda>t. ''<a href="/tags/'' @ slugifyText lib t @ ''.html" class="tag">'' @ escapeHtml t @ ''</a>'') (tags p)) @
               ''</div>''
             else []);
          isListTemplate = (template p = ''list'' \<or> slug p = ''index'');
          isTagTemplate = (template p = ''tag'' \<or> startsWith (slug p) ''tags/'');
          postsListHtml = (if isListTemplate then generatePostsListHtml lib allPosts config else []);
          tagsListHtml = (if isTagTemplate then generateTagsListHtml lib allPosts else [])
      in [(''title'', VStr (title p)),
          (''description'', VStr (description p)),
          (''date'', VStr (formatDate lib (date p) (language config))),
          (''dateISO'', VStr (date p)),
          (''author'', VStr (author config)),
          (''content'', VStr (content p)),
          (''toc'', VStr (toc p)),
          (''readingTime'', VNum (readingTime p)),
          (''tags'', VStr tagsHtml),
          (''relatedPosts'', VStr relatedPostsHtml),
          (''metaTags'', VStr metaTags),
          (''progressBar'', VStr progressBar),
          (''siteTitle'', VStr (cfgTitle config)),
          (''siteDescription'', VStr (cfgDescription config)),
          (''siteUrl'', VStr (siteUrl config)),
          (''posts'', VStr postsListHtml),
          (''pagination'', VStr []),
          (''tagsList'', VStr tagsListHtml)])\<close>

text \<open>
  \<open>buildPost\<close>: the page, or \<open>null\<close> (\<open>None\<close>) when there is no template. A template name
  that finds an inherited property makes \<open>renderTemplate\<close> throw a \<open>TypeError\<close>.
\<close>

definition buildPost ::
  "library \<Rightarrow> post \<Rightarrow> (string \<rightharpoonup> string) \<Rightarrow> post list \<Rightarrow> siteConfig \<Rightarrow> buildError + string option" where
  "buildPost lib p templates allPosts config =
     (case orTemplate (lookupTemplate templates (template p))
             (orTemplate (lookupTemplate templates ''post'') (lookupTemplate templates ''default'')) of
        NoTemplate \<Rightarrow> Inr None
      | NotAString \<Rightarrow> Inl TypeError
      | Template t \<Rightarrow> Inr (Some (renderTemplate t (postTemplateData lib p allPosts config))))"

subsection \<open>The output directory\<close>

text \<open>
  The files of the output directory by their path relative to it, and the paths written
  in the current pass, in the order of the writes.
\<close>

record outstate =
  outTree :: "string \<rightharpoonup> string"
  written :: "(string \<times> string) list"

definition writeFile :: "string \<Rightarrow> string \<Rightarrow> outstate \<Rightarrow> outstate" where
  "writeFile path text st =
     \<lparr>outTree = (outTree st)(path \<mapsto> text), written = written st @ [(path, text)]\<rparr>"

definition writtenPaths :: "outstate \<Rightarrow> string list" where
  "writtenPaths st = map fst (written st)"

subsection \<open>Tag pages (\<open>buildTagPages\<close>)\<close>

text \<open>
  The table \<open>tagPosts\<close>. For a tag that names an inherited property \<open>tagPosts[tag]\<close> is
  truthy without being an array, and \<open>tagPosts[tag].push\<close> is no function.
\<close>

fun groupByTag :: "(string \<times> post list) list \<Rightarrow> (string \<times> post) list \<Rightarrow> buildError + (string \<times> post list) list" where
  "groupByTag tagPosts [] = Inr tagPosts"
| "groupByTag tagPosts ((tag, p) # rest) =
     (if tag \<notin> set (map fst tagPosts) \<and> inheritedProp tag then Inl TypeError
      else groupByTag (upsert tag (\<lambda>ps. ps @ [p]) [p] tagPosts) rest)"

definition tagPostsOf :: "post list \<Rightarrow> buildError + (string \<times> post list) list" where
  "tagPostsOf posts =
     groupByTag [] (concat (map (\<lambda>p. map (\<lambda>tag. (tag, p)) (tags p)) (filter (\<lambda>p. \<not> draft p) posts)))"

definition tagPageHtml :: "library \<Rightarrow> string \<Rightarrow> siteConfig \<Rightarrow> string \<Rightarrow> post list \<Rightarrow> string" where
  \<open>tagPageHtml lib tagTemplate config tag taggedPosts =
     (let sortedPosts = sortBy (byDateDesc lib) taggedPosts;
          postsHtml = ''<ul class="posts-list">'' @
                      concat (map (\<lambda>p. ''\<newline>        <li class="post-item">\<newline>          <a href="/'' @ slug p @ ''.html">'' @ escapeHtml (title p) @ ''</a>\<newline>          <span class="post-date">'' @ formatDate lib (date p) (language config) @ ''</span>\<newline>        </li>\<newline>      '') sortedPosts) @
                      ''</ul>''
      in renderTemplate tagTemplate
           [(''title'', VStr (''Tag: '' @ escapeHtml tag)),
            (''tag'', VStr (escapeHtml tag)),
            (''posts'', VStr postsHtml),
            (''postCount'', VNum (length sortedPosts)),
            (''siteTitle'', VStr (cfgTitle config)),
            (''siteUrl'', VStr (siteUrl config)),
            (''tagsList'', VStr [])])\<close>

definition tagPagePath :: "library \<Rightarrow> string \<Rightarrow> string" where
  "tagPagePath lib tag = ''tags/'' @ slugifyText lib tag @ ''.html''"

definition buildTagPages ::
  "library \<Rightarrow> post list \<Rightarrow> (string \<rightharpoonup> string) \<Rightarrow> siteConfig \<Rightarrow> outstate \<Rightarrow> buildError + outstate" where
  "buildTagPages lib posts templates config st =
     bindE (tagPostsOf posts) (\<lambda>tagPosts.
       case orTemplate (lookupTemplate templates ''tag'') (lookupTemplate templates ''default'') of
         Template tagTemplate \<Rightarrow>
           Inr (foldl (\<lambda>s (tag, taggedPosts).
                   writeFile (tagPagePath lib tag) (tagPageHtml lib tagTemplate config tag taggedPosts) s)
                 st (objectEntries tagPosts))
       | _ \<Rightarrow> Inr st)"

subsection \<open>Pagination (\<open>paginate\<close>, \<open>buildPaginationPages\<close>)\<close>

record 'a page =
  items :: "'a list"
  currentPage :: nat
  totalPages :: nat
  hasNext :: bool
  hasPrev :: bool
  nextPage :: "nat option"
  prevPage :: "nat option"

text \<open>
  \<open>paginate(items, perPage)\<close>. With \<open>perPage = 0\<close> and at least one item the number of
  pages is infinite and the loop does not end; with no item it is \<open>NaN\<close> and the loop
  does not start.
\<close>

definition paginate :: "'a list \<Rightarrow> nat \<Rightarrow> buildError + 'a page list" where
  "paginate its perPage =
     (if perPage = 0 then (if its = [] then Inr [] else Inl NoTermination)
      else
        (let total = (length its + perPage - 1) div perPage
         in Inr (map (\<lambda>i. \<lparr>items = take perPage (drop (i * perPage) its),
                          currentPage = i + 1,
                          totalPages = total,
                          hasNext = (i + 1 < total),
                          hasPrev = (i > 0),
                          nextPage = (if i + 1 < total then Some (i + 2) else None),
                          prevPage = (if i > 0 then Some i else None)\<rparr>)
                  [0..<total])))"

definition listedPosts :: "library \<Rightarrow> post list \<Rightarrow> post list" where
  "listedPosts lib posts =
     sortBy (byDateDesc lib)
       (filter (\<lambda>p. \<not> draft p \<and> slug p \<noteq> ''index'' \<and> slug p \<noteq> ''about'' \<and>
                    \<not> startsWith (slug p) ''tags/'') posts)"

definition paginationPageHtml :: "library \<Rightarrow> string \<Rightarrow> siteConfig \<Rightarrow> post page \<Rightarrow> string" where
  \<open>paginationPageHtml lib listTemplate config pg =
     (let postsHtml = ''<ul class="posts-list">'' @
                      concat (map (\<lambda>p. ''\<newline>        <li class="post-item">\<newline>          <a href="/'' @ slug p @ ''.html" class="post-title">'' @ escapeHtml (title p) @ ''</a>\<newline>          <span class="post-date">'' @ formatDate lib (date p) (language config) @ ''</span>\<newline>          <span class="post-reading-time">'' @ showNat (readingTime p) @ '' min read</span>\<newline>          '' @ (if description p \<noteq> [] then ''<p class="post-description">'' @ escapeHtml (description p) @ ''</p>'' else []) @ ''\<newline>        </li>\<newline>      '') (items pg)) @
                      ''</ul>'';
          prevHtml =
            (case prevPage pg of
               None \<Rightarrow> []
             | Some n \<Rightarrow>
                 (let prevUrl = (if n = 1 then ''/'' else ''/page/'' @ showNat n @ ''.html'')
                  in ''<a href="'' @ prevUrl @ ''" class="prev">'' @ [CHR 0xE2, CHR 0x86, CHR 0x90] @ '' Previous</a>''));
          nextHtml = (case nextPage pg of None \<Rightarrow> [] | Some n \<Rightarrow> ''<a href="/page/'' @ showNat n @ ''.html" class="next">Next '' @ [CHR 0xE2, CHR 0x86, CHR 0x92] @ ''</a>'');
          paginationHtml = ''<nav class="pagination">'' @ prevHtml @ ''<span class="current">Page '' @ showNat (currentPage pg) @ '' / '' @ showNat (totalPages pg) @ ''</span>'' @ nextHtml @ ''</nav>''
      in renderTemplate listTemplate
           [(''title'', VStr (if currentPage pg = 1 then cfgTitle config else ''Page '' @ showNat (currentPage pg) @ '' - '' @ cfgTitle config)),
            (''posts'', VStr postsHtml),
            (''pagination'', VStr paginationHtml),
            (''siteTitle'', VStr (cfgTitle config)),
            (''siteUrl'', VStr (siteUrl config))])\<close>

definition paginationPagePath :: "nat \<Rightarrow> string" where
  "paginationPagePath n = ''page/'' @ showNat n @ ''.html''"

definition writePaginationPage :: "library \<Rightarrow> string \<Rightarrow> siteConfig \<Rightarrow> outstate \<Rightarrow> post page \<Rightarrow> outstate" where
  "writePaginationPage lib listTemplate config st pg =
     (let html = paginationPageHtml lib listTemplate config pg;
          st1 = (if currentPage pg = 1 \<and> outTree st ''index.html'' = None
                 then writeFile ''index.html'' html st else st)
      in writeFile (paginationPagePath (currentPage pg)) html st1)"

definition buildPaginationPages ::
  "library \<Rightarrow> post list \<Rightarrow> (string \<rightharpoonup> string) \<Rightarrow> siteConfig \<Rightarrow> outstate \<Rightarrow> buildError + outstate" where
  "buildPaginationPages lib posts templates config st =
     bindE (paginate (listedPosts lib posts) (postsPerPage config)) (\<lambda>pages.
       case orTemplate (lookupTemplate templates ''list'') (lookupTemplate templates ''default'') of
         Template listTemplate \<Rightarrow> Inr (foldl (writePaginationPage lib listTemplate config) st pages)
       | _ \<Rightarrow> Inr st)"

subsection \<open>Feeds (\<open>generateRSS\<close>, \<open>generateSitemap\<close>)\<close>

text \<open>\<open>generateRSS(posts, siteConfig)\<close>; \<open>now\<close> is the time value of \<open>new Date()\<close> in the call.\<close>

definition generateRSS :: "library \<Rightarrow> int \<Rightarrow> post list \<Rightarrow> siteConfig \<Rightarrow> string" where
  \<open>generateRSS lib now posts siteCfg =
     (let sortedPosts =
            take 20
              (sortBy (byDateDesc lib)
                (filter (\<lambda>p. \<not> draft p \<and> slug p \<noteq> ''index'' \<and> \<not> startsWith (slug p) ''tags/'' \<and>
                             slug p \<noteq> ''about'') posts))
      in ''<?xml version="1.0" encoding="UTF-8"?>\<newline><rss version="2.0" xmlns:atom="http://www.w3.org/2005/Atom">\<newline><channel>\<newline>  <title>'' @ escapeXml (cfgTitle siteCfg) @ ''</title>\<newline>  <description>'' @ escapeXml (cfgDescription siteCfg) @ ''</description>\<newline>  <link>'' @ siteUrl siteCfg @ ''</link>\<newline>  <atom:link href="'' @ siteUrl siteCfg @ ''/rss.xml" rel="self" type="application/rss+xml"/>\<newline>  <lastBuildDate>'' @ toUTCString now @ ''</lastBuildDate>\<newline>'' @
         concat (map (\<lambda>p. let postUrl = siteUrl siteCfg @ ''/'' @ slug p @ ''.html'' in ''  <item>\<newline>    <title>'' @ escapeXml (title p) @ ''</title>\<newline>    <link>'' @ postUrl @ ''</link>\<newline>    <guid>'' @ postUrl @ ''</guid>\<newline>    <pubDate>'' @ dateUTCString lib (date p) @ ''</pubDate>\<newline>    <description>'' @ escapeXml (description p) @ ''</description>\<newline>  </item>\<newline>'') sortedPosts) @
         ''</channel>\<newline></rss>'')\<close>

text \<open>
  \<open>generateSitemap(posts, siteConfig)\<close>; \<open>toISOString\<close> of an invalid date throws a
  \<open>RangeError\<close>.
\<close>

definition sitemapEntry :: "library \<Rightarrow> siteConfig \<Rightarrow> post \<Rightarrow> buildError + string" where
  \<open>sitemapEntry lib siteCfg p =
     (case libDateValue lib (date p) of
        None \<Rightarrow> Inl RangeError
      | Some ms \<Rightarrow>
          (let day = takeWhile (\<lambda>c. c \<noteq> CHR ''T'') (toISOString ms)
           in Inr (''  <url>\<newline>    <loc>'' @ siteUrl siteCfg @ ''/'' @ slug p @ ''.html</loc>\<newline>    <lastmod>'' @ day @ ''</lastmod>\<newline>    <changefreq>monthly</changefreq>\<newline>    <priority>0.8</priority>\<newline>  </url>\<newline>'')))\<close>

fun sitemapEntries :: "library \<Rightarrow> siteConfig \<Rightarrow> post list \<Rightarrow> buildError + string" where
  "sitemapEntries lib siteCfg [] = Inr []"
| "sitemapEntries lib siteCfg (p # ps) =
     bindE (sitemapEntry lib siteCfg p) (\<lambda>e.
       bindE (sitemapEntries lib siteCfg ps) (\<lambda>es. Inr (e @ es)))"

definition generateSitemap :: "library \<Rightarrow> post list \<Rightarrow> siteConfig \<Rightarrow> buildError + string" where
  \<open>generateSitemap lib posts siteCfg =
     bindE (sitemapEntries lib siteCfg
              (filter (\<lambda>p. \<not> draft p \<and> slug p \<noteq> ''index'' \<and> \<not> startsWith (slug p) ''tags/'') posts))
       (\<lambda>entries. Inr (''<?xml version="1.0" encoding="UTF-8"?>\<newline><urlset xmlns="http://www.sitemaps.org/schemas/sitemap/0.9">\<newline>  <url>\<newline>    <loc>'' @ siteUrl siteCfg @ ''</loc>\<newline>    <changefreq>daily</changefreq>\<newline>    <priority>1.0</priority>\<newline>  </url>\<newline>'' @ entries @ ''</urlset>''))\<close>

subsection \<open>A build pass (\<open>build\<close>)\<close>

text \<open>
  What a pass reads: the project directory, the option \<open>incremental\<close>, the configuration
  and the templates as \<open>loadConfig\<close> and \<open>loadTemplates\<close> return them, the Markdown files
  that \<open>glob\<close> finds under the pages directory, the file system of the sources, the files
  of the static directory in the order in which \<open>copyDir\<close> copies them, and the cache
  snapshot as \<open>loadBuildCache\<close> returns it (empty when there is no readable cache file).
  The clock gives the time value of each \<open>new Date()\<close> of the pass: one in the parse of
  each file, one in \<open>generateRSS\<close>.
\<close>

record buildInput =
  inProjectDir :: string
  inIncremental :: bool
  inConfig :: siteConfig
  inTemplates :: "string \<rightharpoonup> string"
  inMdFiles :: "string list"
  inFiles :: filesystem
  inStatic :: "(string \<times> string) list"
  inCache :: cache

datatype clockRead = ParseTime string | RssTime

type_synonym clock = "clockRead \<Rightarrow> int"

record buildResult =
  resOut :: outstate
  resCache :: cache
  resPosts :: "post list"
  resRebuilt :: "post list"

definition readFile :: "filesystem \<Rightarrow> string \<Rightarrow> buildError + string" where
  "readFile fs fpath =
     (case fs fpath of
        None \<Rightarrow> Inl (ReadError (ENOENT fpath))
      | Some Dir \<Rightarrow> Inl (ReadError (EISDIR fpath))
      | Some (File text) \<Rightarrow> Inr text)"

text \<open>The loop that parses the files and fills the new cache.\<close>

fun parseAll ::
  "library \<Rightarrow> clock \<Rightarrow> filesystem \<Rightarrow> string \<Rightarrow> string list \<Rightarrow> post list \<times> cache \<Rightarrow>
   buildError + post list \<times> cache" where
  "parseAll lib clk fs pagesDir [] acc = Inr acc"
| "parseAll lib clk fs pagesDir (file # files) (posts, newCache) =
     bindE (readFile fs (pathJoin [pagesDir, file])) (\<lambda>text.
       let p = parseMarkdownFile lib (clk (ParseTime file)) pagesDir file text
       in case getFileHash (libMd5 lib) fs (pathJoin [pagesDir, file]) of
            Inl e \<Rightarrow> Inl (ReadError e)
          | Inr h \<Rightarrow> parseAll lib clk fs pagesDir files
                      (posts @ [p], newCache(pathJoin [pagesDir, file] \<mapsto> h)))"

text \<open>\<open>const needsBuild = !incremental || needsRebuild(post.filePath, cache)\<close>\<close>

definition needsBuild :: "library \<Rightarrow> bool \<Rightarrow> filesystem \<Rightarrow> cache \<Rightarrow> post \<Rightarrow> buildError + bool" where
  "needsBuild lib incr fs c p =
     (if \<not> incr then Inr True
      else (case needsRebuild (libMd5 lib) fs (filePath p) c of
              Inl e \<Rightarrow> Inl (ReadError e)
            | Inr b \<Rightarrow> Inr b))"

text \<open>\<open>if (html) { ... fs.writeFileSync(outputPath, html) ... }\<close>\<close>

definition writeIfHtml :: "string \<Rightarrow> string option \<Rightarrow> outstate \<Rightarrow> outstate" where
  "writeIfHtml path html st =
     (case html of None \<Rightarrow> st | Some h \<Rightarrow> if h = [] then st else writeFile path h st)"

text \<open>
  The loop over the posts; the second component collects the posts for which
  \<open>needsBuild\<close> held, so \<open>hasNewPosts\<close> is its being non-empty.
\<close>

fun buildPosts ::
  "library \<Rightarrow> bool \<Rightarrow> filesystem \<Rightarrow> cache \<Rightarrow> (string \<rightharpoonup> string) \<Rightarrow> siteConfig \<Rightarrow> post list \<Rightarrow>
   post list \<Rightarrow> outstate \<times> post list \<Rightarrow> buildError + outstate \<times> post list" where
  "buildPosts lib incr fs c templates cfg allPosts [] acc = Inr acc"
| "buildPosts lib incr fs c templates cfg allPosts (p # ps) (st, rebuilt) =
     (if draft p then buildPosts lib incr fs c templates cfg allPosts ps (st, rebuilt)
      else
        bindE (needsBuild lib incr fs c p) (\<lambda>nb.
          if nb then
            bindE (buildPost lib p templates allPosts cfg) (\<lambda>html.
              buildPosts lib incr fs c templates cfg allPosts ps
                (writeIfHtml (slug p @ ''.html'') html st, rebuilt @ [p]))
          else buildPosts lib incr fs c templates cfg allPosts ps (st, rebuilt)))"

text \<open>\<open>if (hasNewPosts || !incremental) { ... }\<close>: the index page.\<close>

definition rebuildIndex ::
  "library \<Rightarrow> bool \<Rightarrow> bool \<Rightarrow> (string \<rightharpoonup> string) \<Rightarrow> siteConfig \<Rightarrow> post list \<Rightarrow> outstate \<Rightarrow>
   buildError + outstate" where
  "rebuildIndex lib incr hasNewPosts templates cfg posts st =
     (if hasNewPosts \<or> \<not> incr then
        (case find (\<lambda>p. slug p = ''index'') posts of
           None \<Rightarrow> Inr st
         | Some indexPost \<Rightarrow>
             bindE (buildPost lib indexPost templates posts cfg) (\<lambda>html.
               Inr (writeIfHtml ''index.html'' html st)))
      else Inr st)"

definition copyStatic :: "(string \<times> string) list \<Rightarrow> outstate \<Rightarrow> outstate" where
  "copyStatic files st = foldl (\<lambda>s (path, text). writeFile path text s) st files"

definition copy404 :: "(string \<rightharpoonup> string) \<Rightarrow> outstate \<Rightarrow> outstate" where
  "copy404 templates st =
     (case templates ''404'' of None \<Rightarrow> st | Some text \<Rightarrow> writeFile ''404.html'' text st)"

text \<open>
  The pass after the parse: the posts, the index page, the tag pages, the pagination
  pages, the feeds and the copies, in this order.
\<close>

definition buildFrom ::
  "library \<Rightarrow> int \<Rightarrow> buildInput \<Rightarrow> post list \<Rightarrow> outstate \<Rightarrow> buildError + outstate \<times> post list" where
  "buildFrom lib rssNow inp posts st0 =
     (let incr = inIncremental inp;
          c = (if incr then inCache inp else Map.empty);
          templates = inTemplates inp;
          cfg = inConfig inp
      in bindE (buildPosts lib incr (inFiles inp) c templates cfg posts posts (st0, [])) (\<lambda>(st1, rebuilt).
         bindE (rebuildIndex lib incr (rebuilt \<noteq> []) templates cfg posts st1) (\<lambda>st2.
         bindE (buildTagPages lib posts templates cfg st2) (\<lambda>st3.
         bindE (buildPaginationPages lib posts templates cfg st3) (\<lambda>st4.
         let st5 = writeFile ''rss.xml'' (generateRSS lib rssNow posts cfg) st4
         in bindE (generateSitemap lib posts cfg) (\<lambda>sitemap.
            let st6 = writeFile ''sitemap.xml'' sitemap st5;
                st7 = copyStatic (inStatic inp) st6;
                st8 = copy404 templates st7
            in Inr (st8, rebuilt)))))))"

text \<open>
  \<open>build(projectDir, options)\<close> on an output directory with the files \<open>out0\<close>. A full
  build empties the output directory first. An error ends the pass; the files
  written before it are not part of the result.
\<close>

definition build :: "library \<Rightarrow> clock \<Rightarrow> buildInput \<Rightarrow> (string \<rightharpoonup> string) \<Rightarrow> buildError + buildResult" where
  "build lib clk inp out0 =
     (let pagesDir = pathJoin [inProjectDir inp, ''pages''];
          st0 = \<lparr>outTree = (if inIncremental inp then out0 else Map.empty), written = []\<rparr>
      in bindE (parseAll lib clk (inFiles inp) pagesDir (inMdFiles inp) ([], Map.empty)) (\<lambda>(posts, newCache).
         bindE (buildFrom lib (clk RssTime) inp posts st0) (\<lambda>(st, rebuilt).
           Inr \<lparr>resOut = st, resCache = newCache, resPosts = posts, resRebuilt = rebuilt\<rparr>)))"

text \<open>
  The directory that results from a list of writes applied in order to a directory, and
  the states of a pass that started on the directory \<open>tree\<close>: the output directory is
  \<open>tree\<close> with the writes of the pass applied.
\<close>

definition applyWrites :: "(string \<rightharpoonup> string) \<Rightarrow> (string \<times> string) list \<Rightarrow> (string \<rightharpoonup> string)" where
  "applyWrites tree ws = foldl (\<lambda>m w. m(fst w \<mapsto> snd w)) tree ws"

definition passFrom :: "(string \<rightharpoonup> string) \<Rightarrow> outstate \<Rightarrow> bool" where
  "passFrom tree st = (outTree st = applyWrites tree (written st))"

text \<open>A page whose front matter carries a date that is not empty.\<close>

definition hasDate :: "library \<Rightarrow> string \<Rightarrow> bool" where
  "hasDate lib text =
     (case fmDate (fst (libMatter lib text)) of None \<Rightarrow> False | Some d \<Rightarrow> d \<noteq> [])"

definition allDated :: "library \<Rightarrow> filesystem \<Rightarrow> string \<Rightarrow> string list \<Rightarrow> bool" where
  "allDated lib fs pagesDir files =
     list_all (\<lambda>file. case readFile fs (pathJoin [pagesDir, file]) of
                        Inl e \<Rightarrow> True | Inr text \<Rightarrow> hasDate lib text) files"

text \<open>Two states of the output directory that differ at most in the content of one path.\<close>

definition agreeOff :: "string \<Rightarrow> outstate \<Rightarrow> outstate \<Rightarrow> bool" where
  "agreeOff k st st' =
     (writtenPaths st = writtenPaths st' \<and>
      filter (\<lambda>w. fst w \<noteq> k) (written st) = filter (\<lambda>w. fst w \<noteq> k) (written st') \<and>
      (outTree st)(k := None) = (outTree st')(k := None))"

subsection \<open>A small project for worked examples\<close>

text \<open>
  Stand-ins for the library functions: the digest of a text is the text itself, the
  first line of a page is its title, the second line its tags and the rest its body,
  every page is dated 2024-01-01, Markdown is taken as HTML, and a date is displayed
  as \<open>1/1/2024\<close>. The texts of the examples are ASCII, where a byte of the file is a
  code unit of the string.
\<close>

definition asciiText :: "jsstring \<Rightarrow> string" where
  "asciiText s = map char_of s"

definition firstLine :: "string \<Rightarrow> string" where
  "firstLine text = takeWhile (\<lambda>c. c \<noteq> CHR 0x0A) text"

definition afterFirstLine :: "string \<Rightarrow> string" where
  "afterFirstLine text = drop 1 (dropWhile (\<lambda>c. c \<noteq> CHR 0x0A) text)"

definition exampleMatter :: "string \<Rightarrow> frontmatter \<times> string" where
  "exampleMatter text =
     (\<lparr>fmTitle = Some (firstLine text), fmDate = Some ''2024-01-01'',
       fmDescription = None, fmTags = TagString (firstLine (afterFirstLine text)),
       fmTemplate = None, fmDraft = False, fmImage = None\<rparr>,
      afterFirstLine (afterFirstLine text))"

definition exampleLibrary :: library where
  "exampleLibrary =
     \<lparr>libMd5 = (\<lambda>text. text), libMatter = exampleMatter, libMarked = (\<lambda>markdown. markdown),
      libGenerateTOC = (\<lambda>html. []), libDateValue = (\<lambda>text. Some 1704067200000),
      libLocaleDate = (\<lambda>ms locale. ''1/1/2024''),
      libUnicode = exampleUnicode, libDecode = ascii, libEncode = asciiText\<rparr>"

definition exampleConfig :: siteConfig where
  "exampleConfig =
     \<lparr>cfgTitle = ''My Blog'', cfgDescription = ''A blog'', siteUrl = ''http://localhost:3000'',
      author = ''Anonymous'', postsPerPage = 10, language = ''vi''\<rparr>"

definition exampleTemplates :: "string \<rightharpoonup> string" where
  "exampleTemplates =
     [''post'' \<mapsto> ''<h1>{{title}}</h1>{{content}}'', ''list'' \<mapsto> ''<main>{{posts}}</main>'']"

text \<open>
  A project with the one page \<open>a.md\<close> and no page \<open>index.md\<close>; \<open>text\<close> is the content of
  the page.
\<close>

definition exampleInput :: "bool \<Rightarrow> (string \<rightharpoonup> string) \<Rightarrow> string \<Rightarrow> cache \<Rightarrow> buildInput" where
  "exampleInput incr templates text c =
     \<lparr>inProjectDir = ''blog'', inIncremental = incr, inConfig = exampleConfig,
      inTemplates = templates, inMdFiles = [''a.md''],
      inFiles = [''blog/pages/a.md'' \<mapsto> File text], inStatic = [], inCache = c\<rparr>"

definition exampleClock :: "int \<Rightarrow> clock" where
  "exampleClock t = (\<lambda>r. t)"

definition examplePath :: string where
  "examplePath = ''blog/pages/a.md''"

definition exampleFiles :: "string \<Rightarrow> filesystem" where
  "exampleFiles text = [examplePath \<mapsto> File text]"

text \<open>
  A full build of the project with a template for posts only, and with a cache that
  knows the page.
\<close>

definition postTemplateOnly :: "string \<rightharpoonup> string" where
  "postTemplateOnly = [''post'' \<mapsto> ''<h1>{{title}}</h1>'']"

definition exampleFullInput :: buildInput where
  "exampleFullInput = exampleInput False postTemplateOnly ''Title'' [examplePath \<mapsto> Str ''Title'']"

definition exampleFullBuild :: "buildError + buildResult" where
  "exampleFullBuild = build exampleLibrary (exampleClock 0) exampleFullInput Map.empty"

text \<open>The same full build started five seconds later.\<close>

definition exampleLaterBuild :: "buildError + buildResult" where
  "exampleLaterBuild = build exampleLibrary (exampleClock 5000) exampleFullInput Map.empty"




text \<open>
  An incremental pass over a project without a page \<open>index.md\<close>, after the page \<open>a.md\<close> has
  changed, on an output directory that holds the root page of an earlier pass.
\<close>

definition exampleStaleInput :: buildInput where
  "exampleStaleInput = exampleInput True exampleTemplates ''New'' [examplePath \<mapsto> Str ''Old'']"

definition exampleStaleBuild :: "buildError + buildResult" where
  "exampleStaleBuild =
     build exampleLibrary (exampleClock 0) exampleStaleInput [''index.html'' \<mapsto> ''<main>old</main>'']"
section \<open>Properties of \<open>slugify\<close>\<close>

lemma replaceRuns_id: "\<forall>c \<in> set s. \<not> P c \<Longrightarrow> replaceRuns P r s = s"
  by (induction s) auto

lemma replaceRuns_set: "set (replaceRuns P r s) \<subseteq> insert r {c \<in> set s. \<not> P c}"
proof (induction P r s rule: replaceRuns.induct)
  case (1 P r)
  then show ?case by simp
next
  case (2 P r c cs)
  show ?case
  proof (cases "P c")
    case True
    have "set (dropWhile P cs) \<subseteq> set cs" by (simp add: set_dropWhileD subsetI)
    with 2(1)[OF True] True show ?thesis by auto
  next
    case False
    with 2(2)[OF False] show ?thesis by auto
  qed
qed

lemma noDouble_replaceRuns_aux:
  "P = (\<lambda>c. c = h) \<Longrightarrow> r = h \<Longrightarrow> noDouble h (replaceRuns P r s)"
proof (induction P r s rule: replaceRuns.induct)
  case (1 P r)
  then show ?case by simp
next
  case (2 P r c cs)
  show ?case
  proof (cases "P c")
    case True
    show ?thesis
    proof (cases "dropWhile P cs")
      case Nil
      have "replaceRuns P r (c # cs) = [r]"
        using True by (simp only: replaceRuns.simps if_True Nil)
      then show ?thesis by simp
    next
      case (Cons x xs)
      then have nx: "\<not> P x" by (metis hd_dropWhile list.sel(1) list.distinct(1))
      have "noDouble h (x # replaceRuns P r xs)"
        using 2(1)[OF True 2(3) 2(4)] Cons nx by simp
      then show ?thesis using True Cons nx 2(3) by simp
    qed
  next
    case False
    show ?thesis using 2(2)[OF False 2(3) 2(4)] False 2(3) 2(4)
      by (cases cs) (auto split: if_splits)
  qed
qed

lemma noDouble_replaceRuns: "noDouble h (replaceRuns (\<lambda>c. c = h) h s)"
  by (rule noDouble_replaceRuns_aux) simp_all

lemma replaceRuns_noDouble_id: "noDouble h s \<Longrightarrow> replaceRuns (\<lambda>c. c = h) h s = s"
  by (induction h s rule: noDouble.induct) auto

lemma dropWhile_none: "\<forall>c \<in> set s. \<not> P c \<Longrightarrow> dropWhile P s = s"
  by (cases s) auto

lemma trim_id: "\<forall>c \<in> set s. \<not> isSpace c \<Longrightarrow> trim s = s"
  unfolding trim_def by (simp add: dropWhile_none)

lemma slugChar_not_space: "slugChar c \<Longrightarrow> \<not> isSpace c"
  by (auto simp: slugChar_def isLowerAlnum_def isSpace_def)

lemma slugChar_not_mark: "slugChar c \<Longrightarrow> \<not> (0x0300 \<le> c \<and> c \<le> 0x036F)"
  by (auto simp: slugChar_def isLowerAlnum_def)

lemma slugify_fixed:
  assumes low: "toLowerCase uc s = s" and nfd: "normalizeNFD uc s = s"
    and chars: "\<forall>c \<in> set s. slugChar c" and nd: "noDouble (cu (CHR ''-'')) s"
  shows "slugify uc s = s"
proof -
  have marks: "stripCombiningMarks s = s"
    unfolding stripCombiningMarks_def using chars slugChar_not_mark
    by (auto simp: filter_id_conv)
  have strip: "stripNonSlugChars s = s"
    unfolding stripNonSlugChars_def using chars by (auto simp: slugChar_def filter_id_conv)
  have nosp: "\<forall>c \<in> set s. \<not> isSpace c"
    using chars slugChar_not_space by blast
  have sp: "replaceRuns isSpace (cu (CHR ''-'')) s = s"
    using nosp by (rule replaceRuns_id)
  have hy: "replaceRuns (\<lambda>c. c = cu (CHR ''-'')) (cu (CHR ''-'')) s = s"
    using nd by (rule replaceRuns_noDouble_id)
  show ?thesis
    unfolding slugify_def low nfd marks strip sp hy using nosp by (rule trim_id)
qed

lemma slugify_chars: "\<forall>c \<in> set (replaceRuns (\<lambda>c. c = cu (CHR ''-'')) (cu (CHR ''-''))
       (replaceRuns isSpace (cu (CHR ''-'')) (stripNonSlugChars t))). slugChar c"
proof -
  let ?a = "stripNonSlugChars t"
  let ?b = "replaceRuns isSpace (cu (CHR ''-'')) ?a"
  let ?c = "replaceRuns (\<lambda>c. c = cu (CHR ''-'')) (cu (CHR ''-'')) ?b"
  have a: "\<forall>c \<in> set ?a. isLowerAlnum c \<or> isSpace c \<or> c = cu (CHR ''-'')"
    by (simp add: stripNonSlugChars_def)
  have b: "\<forall>c \<in> set ?b. slugChar c"
    using replaceRuns_set[of isSpace "cu (CHR ''-'')" ?a] a by (auto simp: slugChar_def)
  show "\<forall>c \<in> set ?c. slugChar c"
    using replaceRuns_set[of "\<lambda>c. c = cu (CHR ''-'')" "cu (CHR ''-'')" ?b] b
    by (auto simp: slugChar_def)
qed

lemma trim_slug:
  "trim (replaceRuns (\<lambda>c. c = cu (CHR ''-'')) (cu (CHR ''-''))
       (replaceRuns isSpace (cu (CHR ''-'')) (stripNonSlugChars t)))
   = replaceRuns (\<lambda>c. c = cu (CHR ''-'')) (cu (CHR ''-''))
       (replaceRuns isSpace (cu (CHR ''-'')) (stripNonSlugChars t))"
  using slugify_chars[of t] slugChar_not_space by (intro trim_id) blast

lemma slugify_form:
  "(\<forall>c \<in> set (slugify uc s). slugChar c) \<and> noDouble (cu (CHR ''-'')) (slugify uc s)"
proof -
  let ?t = "stripCombiningMarks (normalizeNFD uc (toLowerCase uc s))"
  have eq: "slugify uc s = replaceRuns (\<lambda>c. c = cu (CHR ''-'')) (cu (CHR ''-''))
       (replaceRuns isSpace (cu (CHR ''-'')) (stripNonSlugChars ?t))"
    unfolding slugify_def by (rule trim_slug)
  show ?thesis
    unfolding eq using slugify_chars[of ?t] by (simp add: noDouble_replaceRuns)
qed

lemma latin1Lower_slug: "\<forall>c \<in> set t. slugChar c \<Longrightarrow> map latin1Lower t = t"
  by (intro map_idI) (auto simp: slugChar_def isLowerAlnum_def latin1Lower_def)

lemma latin1Decompose_slug: "\<forall>c \<in> set t. slugChar c \<Longrightarrow> concat (map latin1Decompose t) = t"
  by (induction t) (auto simp: slugChar_def isLowerAlnum_def latin1Decompose_def)

text \<open>
  C9. \<open>slugify\<close> is idempotent. A slug consists of the characters \<open>a\<close>..\<open>z\<close>, \<open>0\<close>..\<open>9\<close> and
  single hyphens, whatever the input and whatever the Unicode tables of the engine;
  \<open>toLowerCase\<close> and \<open>normalize('NFD')\<close> leave such a string as it is, and so do the
  replacements and \<open>trim\<close>, so slugifying the slug of a tag again gives the same file
  name.
\<close>

theorem slugify_idempotent:
  assumes "\<And>t. \<forall>c \<in> set t. slugChar c \<Longrightarrow> toLowerCase uc t = t"
    and "\<And>t. \<forall>c \<in> set t. slugChar c \<Longrightarrow> normalizeNFD uc t = t"
  shows "slugify uc (slugify uc s) = slugify uc s"
  using slugify_form[of uc s] assms by (intro slugify_fixed) blast+


theorem slugify_idempotent_witness:
  "toLowerCase exampleUnicode (ascii ''cafe-au-lait'') = ascii ''cafe-au-lait'' \<and>
   normalizeNFD exampleUnicode (ascii ''cafe-au-lait'') = ascii ''cafe-au-lait'' \<and>
   slugify exampleUnicode (ascii ''Caf'' @ [0xE9] @ ascii '' au  Lait!'') = ascii ''cafe-au-lait'' \<and>
   slugify exampleUnicode (slugify exampleUnicode (ascii ''Caf'' @ [0xE9] @ ascii '' au  Lait!''))
     = slugify exampleUnicode (ascii ''Caf'' @ [0xE9] @ ascii '' au  Lait!'')"
proof -
  have low: "\<And>t. \<forall>c \<in> set t. slugChar c \<Longrightarrow> toLowerCase exampleUnicode t = t"
    by (simp add: exampleUnicode_def latin1Lower_slug)
  have nfd: "\<And>t. \<forall>c \<in> set t. slugChar c \<Longrightarrow> normalizeNFD exampleUnicode t = t"
    by (simp add: exampleUnicode_def latin1Decompose_slug)
  have ex: "slugify exampleUnicode (ascii ''Caf'' @ [0xE9] @ ascii '' au  Lait!'') = ascii ''cafe-au-lait''"
    by code_simp
  have "slugify exampleUnicode (slugify exampleUnicode (ascii ''Caf'' @ [0xE9] @ ascii '' au  Lait!''))
     = slugify exampleUnicode (ascii ''Caf'' @ [0xE9] @ ascii '' au  Lait!'')"
    using low nfd by (rule slugify_idempotent)
  moreover have "toLowerCase exampleUnicode (ascii ''cafe-au-lait'') = ascii ''cafe-au-lait''"
    "normalizeNFD exampleUnicode (ascii ''cafe-au-lait'') = ascii ''cafe-au-lait''"
    by code_simp+
  ultimately show ?thesis using ex by blast
qed
section \<open>Properties of \<open>addHeadingIds\<close>\<close>

lemma readNat_showNat: "readNat (showNat n) = n"
proof (induction n rule: showNat.induct)
  case (1 n)
  show ?case
  proof (cases "n < 10")
    case True
    then show ?thesis
      by (subst showNat.simps) (simp add: readNat_def digitChar_def)
  next
    case False
    have "readNat (showNat n) = 10 * readNat (showNat (n div 10)) + (of_char (digitChar (n mod 10)) - 48)"
      using False by (subst showNat.simps) (simp add: readNat_def)
    also have "\<dots> = 10 * (n div 10) + n mod 10"
      using 1[OF False] by (simp add: digitChar_def)
    finally show ?thesis by simp
  qed
qed

lemma showNat_inj: "showNat m = showNat n \<Longrightarrow> m = n"
  by (metis readNat_showNat)

lemma showNat_digits: "c \<in> set (showNat n) \<Longrightarrow> 48 \<le> (of_char c :: nat) \<and> (of_char c :: nat) \<le> 57"
proof (induction n rule: showNat.induct)
  case (1 n)
  show ?case
  proof (cases "n < 10")
    case True
    with 1(2) show ?thesis
      by (subst (asm) showNat.simps) (simp add: digitChar_def)
  next
    case False
    with 1 show ?thesis
      by (subst (asm) (2) showNat.simps) (auto simp: digitChar_def)
  qed
qed

lemma showNat_not_NaN: "showNat n \<noteq> ''NaN''"
  using showNat_digits[of "CHR ''N''" n] by auto

lemma ascii_eq_iff: "ascii a = ascii b \<longleftrightarrow> a = b"
  unfolding ascii_def by (simp add: inj_map_eq_map inj_on_def)

lemma ascii_append: "ascii (a @ b) = ascii a @ ascii b"
  by (simp add: ascii_def)

lemma emitId_inj: "emitId b k = emitId b k' \<Longrightarrow> k = k'"
proof -
  have nan: "ascii ''-NaN'' \<noteq> ascii ''-'' @ ascii (showNat n)" for n
  proof
    assume "ascii ''-NaN'' = ascii ''-'' @ ascii (showNat n)"
    then have "ascii ''-NaN'' = ascii (''-'' @ showNat n)" by (simp only: ascii_append)
    then have "''-NaN'' = ''-'' @ showNat n" by (simp only: ascii_eq_iff)
    then show False using showNat_not_NaN[of n] by simp
  qed
  have num: "ascii ''-'' @ ascii (showNat m) = ascii ''-'' @ ascii (showNat n) \<Longrightarrow> m = n" for m n
    using showNat_inj by (simp add: ascii_eq_iff)
  have emp: "ascii ''-'' @ ascii (showNat n) \<noteq> []" "ascii ''-NaN'' \<noteq> []" for n
    by (simp_all add: ascii_def)
  assume "emitId b k = emitId b k'"
  then show ?thesis
    using nan[of k] nan[of k'] nan[of k, symmetric] nan[of k', symmetric] num[of k k'] emp
    by (auto simp: emitId_def split: if_splits)
qed

lemma nextId_emit:
  "nextId uc cnt t = (i, cnt') \<Longrightarrow>
     i = emitId (headingBaseId uc t) (counterIndex cnt (headingBaseId uc t)) \<and>
     counterIndex cnt' (headingBaseId uc t) = Suc (counterIndex cnt (headingBaseId uc t)) \<and>
     (\<forall>b. b \<noteq> headingBaseId uc t \<longrightarrow> counterIndex cnt' b = counterIndex cnt b)"
  by (auto simp: nextId_def Let_def emitId_def counterIndex_def counterTruthy_def counterIncr_def
        showNum_def ascii_def split: if_splits option.splits jsnum.splits)


lemma idsFrom_length: "length (idsFrom uc cnt ts) = length ts"
  by (induction ts arbitrary: cnt) (auto split: prod.splits)

lemma idsFrom_nth:
  "j < length ts \<Longrightarrow>
     idsFrom uc cnt ts ! j =
       emitId (headingBaseId uc (ts ! j))
         (counterIndex cnt (headingBaseId uc (ts ! j)) +
          length (filter (\<lambda>t. headingBaseId uc t = headingBaseId uc (ts ! j)) (take j ts)))"
proof (induction ts arbitrary: cnt j)
  case Nil
  then show ?case by simp
next
  case (Cons t ts)
  obtain i cnt' where nx: "nextId uc cnt t = (i, cnt')" by (cases "nextId uc cnt t")
  note e = nextId_emit[OF nx]
  show ?case
  proof (cases j)
    case 0
    then show ?thesis using nx e by simp
  next
    case (Suc j')
    then have j': "j' < length ts" using Cons.prems by simp
    let ?b = "headingBaseId uc (ts ! j')"
    have ci: "counterIndex cnt' ?b = counterIndex cnt ?b + (if headingBaseId uc t = ?b then 1 else 0)"
      using e by auto
    show ?thesis using Cons.IH[OF j', of cnt'] nx Suc ci by simp
  qed
qed

lemma filter_take_less:
  assumes "i < j" and "j \<le> length ts" and "P (ts ! i)"
  shows "length (filter P (take i ts)) < length (filter P (take j ts))"
proof -
  have "take j ts = take (Suc i) ts @ take (j - Suc i) (drop (Suc i) ts)"
    using assms(1) by (metis Suc_leI le_add_diff_inverse take_add)
  moreover have "take (Suc i) ts = take i ts @ [ts ! i]"
    using assms by (simp add: take_Suc_conv_app_nth)
  ultimately show ?thesis using assms(3) by simp
qed

lemma idsFrom_distinct:
  assumes "i < j" and "j < length ts" and "headingBaseId uc (ts ! i) = headingBaseId uc (ts ! j)"
  shows "idsFrom uc cnt ts ! i \<noteq> idsFrom uc cnt ts ! j"
proof
  let ?b = "headingBaseId uc (ts ! j)"
  let ?P = "\<lambda>t. headingBaseId uc t = ?b"
  assume eq: "idsFrom uc cnt ts ! i = idsFrom uc cnt ts ! j"
  have i: "i < length ts" using assms by simp
  have "emitId ?b (counterIndex cnt ?b + length (filter ?P (take i ts)))
      = emitId ?b (counterIndex cnt ?b + length (filter ?P (take j ts)))"
    using eq idsFrom_nth[OF i, of uc cnt] idsFrom_nth[OF assms(2), of uc cnt] assms(3) by simp
  then have "length (filter ?P (take i ts)) = length (filter ?P (take j ts))"
    using emitId_inj by fastforce
  moreover have "length (filter ?P (take i ts)) < length (filter ?P (take j ts))"
    using assms by (intro filter_take_less) auto
  ultimately show False by simp
qed

lemma renderTokens_ids:
  "renderTokens uc cnt toks = renderWithIds toks (idsFrom uc cnt (headingTextsOf toks))"
  by (induction uc cnt toks rule: renderTokens.induct) (auto split: prod.splits)

lemma counterIndex_empty:
  "counterIndex Map.empty b = (if inheritedKey b then 0 else 1)"
  by (simp add: counterIndex_def)


lemma dropWhile_weaker:
  "(\<And>x. P x \<Longrightarrow> Q x) \<Longrightarrow> dropWhile Q (dropWhile P s) = dropWhile Q s"
  by (induction s) auto

lemma replaceRuns_prefix:
  assumes "\<not> P h"
  shows "\<exists>k. replaceRuns P h s = replicate k h @ replaceRuns P h (dropWhile (\<lambda>c. P c \<or> c = h) s)
            \<and> (s \<noteq> [] \<and> (P (hd s) \<or> hd s = h) \<longrightarrow> 0 < k)"
proof (induction P h s rule: replaceRuns.induct)
  case (1 P r)
  then show ?case by simp
next
  case (2 P r c cs)
  let ?Q = "\<lambda>c. P c \<or> c = r"
  show ?case
  proof (cases "P c")
    case True
    from 2(1)[OF True] obtain k where
      k: "replaceRuns P r (dropWhile P cs) = replicate k r @ replaceRuns P r (dropWhile ?Q (dropWhile P cs))"
      by blast
    have "dropWhile ?Q (dropWhile P cs) = dropWhile ?Q cs"
      by (rule dropWhile_weaker) simp
    then have "replaceRuns P r (c # cs) = replicate (Suc k) r @ replaceRuns P r (dropWhile ?Q (c # cs))"
      using True k by simp
    then show ?thesis by blast
  next
    case False
    from 2(2)[OF False] obtain k where
      k: "replaceRuns P r cs = replicate k r @ replaceRuns P r (dropWhile ?Q cs)"
      by blast
    show ?thesis
    proof (cases "c = r")
      case True
      then have "replaceRuns P r (c # cs) = replicate (Suc k) r @ replaceRuns P r (dropWhile ?Q (c # cs))"
        using False k by simp
      then show ?thesis by blast
    next
      case cr: False
      then have "replaceRuns P r (c # cs) = replicate 0 r @ replaceRuns P r (dropWhile ?Q (c # cs))"
        using False by simp
      then show ?thesis using False cr by auto
    qed
  qed
qed

lemma replaceRuns_not_hd:
  "s \<noteq> [] \<Longrightarrow> \<not> P (hd s) \<Longrightarrow> replaceRuns P h s \<noteq> [] \<and> hd (replaceRuns P h s) = hd s"
  by (cases s) auto

lemma dropWhile_hd: "dropWhile Q s \<noteq> [] \<Longrightarrow> \<not> Q (hd (dropWhile Q s))"
  by (metis hd_dropWhile)

lemma replaceRuns_replicate:
  assumes "0 < k" and "t = [] \<or> hd t \<noteq> h"
  shows "replaceRuns (\<lambda>c. c = h) h (replicate k h @ t) = h # replaceRuns (\<lambda>c. c = h) h t"
proof -
  obtain k' where k: "k = Suc k'" using assms(1) by (cases k) auto
  have "dropWhile (\<lambda>c. c = h) (replicate k' h @ t) = t"
    using assms(2) by (induction k') (auto simp: dropWhile_eq_self_iff)
  then show ?thesis by (simp add: k)
qed

lemma replaceRuns_twice:
  assumes "\<not> P h"
  shows "replaceRuns (\<lambda>c. c = h) h (replaceRuns P h s) = replaceRuns (\<lambda>c. P c \<or> c = h) h s"
proof (induction "length s" arbitrary: s rule: less_induct)
  case less
  let ?Q = "\<lambda>c. P c \<or> c = h"
  show ?case
  proof (cases s)
    case Nil
    then show ?thesis by simp
  next
    case (Cons c cs)
    show ?thesis
    proof (cases "?Q c")
      case True
      let ?rest = "dropWhile ?Q s"
      from replaceRuns_prefix[of P h s, OF assms] obtain k where
        k: "replaceRuns P h s = replicate k h @ replaceRuns P h ?rest" and pos: "0 < k"
        using Cons True by auto
      have len: "length ?rest < length s"
        using Cons True by (simp add: length_dropWhile_le le_imp_less_Suc)
      have hd: "replaceRuns P h ?rest = [] \<or> hd (replaceRuns P h ?rest) \<noteq> h"
      proof (cases "?rest = []")
        case True
        have "replaceRuns P h [] = []" by simp
        then show ?thesis unfolding True by (rule disjI1)
      next
        case False
        then have nq: "\<not> ?Q (hd ?rest)" by (rule dropWhile_hd)
        then show ?thesis using replaceRuns_not_hd[OF False, of P h] by auto
      qed
      have "replaceRuns (\<lambda>c. c = h) h (replaceRuns P h s)
          = h # replaceRuns (\<lambda>c. c = h) h (replaceRuns P h ?rest)"
        unfolding k using pos hd by (rule replaceRuns_replicate)
      also have "\<dots> = h # replaceRuns ?Q h ?rest"
        using less[OF len] by simp
      also have "\<dots> = replaceRuns ?Q h s"
        using Cons True by simp
      finally show ?thesis .
    next
      case False
      have "replaceRuns (\<lambda>c. c = h) h (replaceRuns P h cs) = replaceRuns ?Q h cs"
        using less[of cs] Cons by simp
      then show ?thesis using Cons False by simp
    qed
  qed
qed

lemma headingBaseId_runs:
  "headingBaseId uc text =
     replaceRuns (\<lambda>c. isSpace c \<or> c = cu (CHR ''-'')) (cu (CHR ''-''))
       (filter (\<lambda>c. isLowerAlnum c \<or> isSpace c \<or> c = cu (CHR ''-'')) (toLowerCase uc text))"
proof -
  have "\<not> isSpace (cu (CHR ''-''))" by (simp add: isSpace_def)
  then show ?thesis
    unfolding headingBaseId_def trim_slug
    by (simp add: replaceRuns_twice stripNonSlugChars_def)
qed

text \<open>
  C5 (as amended). A call of \<open>addHeadingIds\<close> starts from an empty counter, so its result
  depends on the input alone, and it writes the identifiers \<open>headingIds\<close> into the
  matched headings. The base identifier of a heading is its lower-cased text with every
  code unit other than \<open>a\<close>..\<open>z\<close>, \<open>0\<close>..\<open>9\<close>, white space and hyphen deleted and every
  maximal run of white space and hyphens then replaced by one hyphen. Unless the base
  is the name of an inherited object property, the first heading with a base gets the
  base itself and the \<open>k\<close>-th one gets the base followed by \<open>-k\<close>. Two headings with the
  same text always get distinct identifiers.
\<close>

theorem addHeadingIds_ids:
  "addHeadingIds uc html = renderWithIds (tokenizeHeadings html) (headingIds uc html) \<and>
   length (headingIds uc html) = length (headingTexts html) \<and>
   (\<forall>t. headingBaseId uc t =
      replaceRuns (\<lambda>c. isSpace c \<or> c = cu (CHR ''-'')) (cu (CHR ''-''))
        (filter (\<lambda>c. isLowerAlnum c \<or> isSpace c \<or> c = cu (CHR ''-'')) (toLowerCase uc t))) \<and>
   (\<forall>j < length (headingTexts html).
      \<not> inheritedKey (headingBaseId uc (headingTexts html ! j)) \<longrightarrow>
      headingIds uc html ! j =
        (if occurrence uc (headingTexts html) j = 1 then headingBaseId uc (headingTexts html ! j)
         else headingBaseId uc (headingTexts html ! j) @ ascii ''-'' @
              ascii (showNat (occurrence uc (headingTexts html) j)))) \<and>
   (\<forall>i j. i < j \<and> j < length (headingTexts html) \<and>
      headingTexts html ! i = headingTexts html ! j \<longrightarrow>
      headingIds uc html ! i \<noteq> headingIds uc html ! j)"
proof (intro conjI allI impI)
  show "addHeadingIds uc html = renderWithIds (tokenizeHeadings html) (headingIds uc html)"
    by (simp add: addHeadingIds_def headingIds_def headingTexts_def renderTokens_ids)
  show "length (headingIds uc html) = length (headingTexts html)"
    by (simp add: headingIds_def idsFrom_length)
next
  fix t
  show "headingBaseId uc t =
      replaceRuns (\<lambda>c. isSpace c \<or> c = cu (CHR ''-'')) (cu (CHR ''-''))
        (filter (\<lambda>c. isLowerAlnum c \<or> isSpace c \<or> c = cu (CHR ''-'')) (toLowerCase uc t))"
    by (rule headingBaseId_runs)
next
  fix j
  assume j: "j < length (headingTexts html)"
    and ni: "\<not> inheritedKey (headingBaseId uc (headingTexts html ! j))"
  show "headingIds uc html ! j =
        (if occurrence uc (headingTexts html) j = 1 then headingBaseId uc (headingTexts html ! j)
         else headingBaseId uc (headingTexts html ! j) @ ascii ''-'' @
              ascii (showNat (occurrence uc (headingTexts html) j)))"
    using idsFrom_nth[OF j, of uc Map.empty] ni
    by (simp add: headingIds_def counterIndex_empty occurrence_def emitId_def)
next
  fix i j
  assume "i < j \<and> j < length (headingTexts html) \<and>
      headingTexts html ! i = headingTexts html ! j"
  then show "headingIds uc html ! i \<noteq> headingIds uc html ! j"
    unfolding headingIds_def by (intro idsFrom_distinct) auto
qed

theorem addHeadingIds_ids_witness:
  \<open>(0::nat) < 1 \<and> 1 < length (headingTexts (ascii ''<h2>foo</h2><h3>foo</h3>'')) \<and>
   headingTexts (ascii ''<h2>foo</h2><h3>foo</h3>'') ! 0 = headingTexts (ascii ''<h2>foo</h2><h3>foo</h3>'') ! 1 \<and>
   \<not> inheritedKey (headingBaseId exampleUnicode (headingTexts (ascii ''<h2>foo</h2><h3>foo</h3>'') ! 1)) \<and>
   addHeadingIds exampleUnicode (ascii ''<h2>foo</h2><h3>foo</h3>'')
     = ascii ''<h2 id="foo">foo</h2><h3 id="foo-2">foo</h3>'' \<and>
   headingIds exampleUnicode (ascii ''<h2>foo</h2><h3>foo</h3>'') ! 1 = ascii ''foo-2'' \<and>
   headingIds exampleUnicode (ascii ''<h2>foo</h2><h3>foo</h3>'') ! 0
     \<noteq> headingIds exampleUnicode (ascii ''<h2>foo</h2><h3>foo</h3>'') ! 1\<close>
proof -
  let ?h = \<open>ascii ''<h2>foo</h2><h3>foo</h3>''\<close>
  let ?foo = "ascii ''foo''"
  have toks: "tokenizeHeadings ?h = [Heading (cu (CHR ''2'')) ?foo, Heading (cu (CHR ''3'')) ?foo]"
    by code_simp
  have texts: "headingTexts ?h = [?foo, ?foo]"
    by (simp add: headingTexts_def toks)
  have base: "headingBaseId exampleUnicode ?foo = ?foo"
    by code_simp
  have ni: "\<not> inheritedKey ?foo"
    by code_simp
  have occ1: "occurrence exampleUnicode [?foo, ?foo] (Suc 0) = 2"
    by (simp add: occurrence_def)
  have occ0: "occurrence exampleUnicode [?foo, ?foo] 0 = Suc 0"
    by (simp add: occurrence_def)
  have two: "showNat 2 = ''2''"
    by code_simp
  note main = addHeadingIds_ids[of exampleUnicode ?h, unfolded texts]
  from main have c1: "addHeadingIds exampleUnicode ?h
        = renderWithIds (tokenizeHeadings ?h) (headingIds exampleUnicode ?h)"
    and len: "length (headingIds exampleUnicode ?h) = length [?foo, ?foo]"
    and c3: "\<And>j. j < length [?foo, ?foo] \<Longrightarrow>
        \<not> inheritedKey (headingBaseId exampleUnicode ([?foo, ?foo] ! j)) \<Longrightarrow>
        headingIds exampleUnicode ?h ! j =
        (if occurrence exampleUnicode [?foo, ?foo] j = 1 then headingBaseId exampleUnicode ([?foo, ?foo] ! j)
         else headingBaseId exampleUnicode ([?foo, ?foo] ! j) @ ascii ''-'' @
              ascii (showNat (occurrence exampleUnicode [?foo, ?foo] j)))"
    and c4: "\<And>i j. i < j \<and> j < length [?foo, ?foo] \<and> [?foo, ?foo] ! i = [?foo, ?foo] ! j \<Longrightarrow>
        headingIds exampleUnicode ?h ! i \<noteq> headingIds exampleUnicode ?h ! j"
    by blast+
  have id1: "headingIds exampleUnicode ?h ! 1 = ascii ''foo-2''"
    using c3[of 1] ni by (simp add: occ1 two base) (simp add: ascii_def)
  have id0: "headingIds exampleUnicode ?h ! 0 = ?foo"
    using c3[of 0] ni by (simp add: occ0 base)
  have ne: "headingIds exampleUnicode ?h ! 0 \<noteq> headingIds exampleUnicode ?h ! 1"
    using c4[of 0 1] by simp
  have ids: "headingIds exampleUnicode ?h = [?foo, ascii ''foo-2'']"
    using len id0 id1 by (simp add: list_eq_iff_nth_eq less_Suc_eq)
  have out: \<open>addHeadingIds exampleUnicode ?h = ascii ''<h2 id="foo">foo</h2><h3 id="foo-2">foo</h3>''\<close>
    unfolding c1 toks ids by (simp add: headingHtml_def ascii_def)
  show ?thesis
    using out id1 ne ni by (simp add: texts base)
qed

text \<open>
  The claim as stated fails: the heading text \<open>a.b\<close> gets the identifier \<open>ab\<close>, since the
  full stop is deleted, whereas collapsing it to a hyphen would give \<open>a-b\<close>.
\<close>

theorem addHeadingIds_spec_counterexample:
  \<open>headingIds exampleUnicode (ascii ''<h2>a.b</h2>'') = [ascii ''ab''] \<and>
   map (specHeadingId exampleUnicode) (headingTexts (ascii ''<h2>a.b</h2>'')) = [ascii ''a-b''] \<and>
   addHeadingIds exampleUnicode (ascii ''<h2>a.b</h2>'') = ascii ''<h2 id="ab">a.b</h2>''\<close>
  by code_simp

text \<open>
  A heading whose base is \<open>constructor\<close> meets the inherited property of the counter
  object: the first such heading gets \<open>constructor-NaN\<close>. A no-break space (U+00A0)
  between two words is white space and becomes a hyphen.
\<close>

lemma addHeadingIds_constructor:
  \<open>headingIds exampleUnicode (ascii ''<h2>Constructor</h2><h2>constructor</h2>'')
     = [ascii ''constructor-NaN'', ascii ''constructor'']\<close>
  by code_simp

lemma addHeadingIds_nbsp:
  \<open>headingIds exampleUnicode (ascii ''<h2>a'' @ [0xA0] @ ascii ''b</h2>'') = [ascii ''a-b'']\<close>
  by code_simp
section \<open>Properties of \<open>findRelatedPosts\<close>\<close>

lemma sortBy_sort_key:
  "sortBy (\<lambda>a b. int (f b) - int (f a)) xs = sort_key (\<lambda>x. - int (f x)) xs"
proof -
  have ins: "\<And>x ys. insertBy (\<lambda>a b. int (f b) - int (f a)) x ys = insort_key (\<lambda>x. - int (f x)) x ys"
    subgoal for x ys by (induction ys) auto
    done
  show ?thesis
    unfolding sortBy_def sort_key_def by (induction xs) (auto simp: ins)
qed

lemma insort_key_map:
  "insort_key f (g x) (map g ys) = map g (insort_key (\<lambda>y. f (g y)) x ys)"
  by (induction ys) auto

lemma sort_key_map: "sort_key f (map g xs) = map g (sort_key (\<lambda>y. f (g y)) xs)"
  by (induction xs) (auto simp: insort_key_map)

lemma findRelatedPosts_eq:
  "findRelatedPosts cur all limit =
     take limit (sort_key (\<lambda>p. - int (sharedTags cur p)) (filter (relatedCandidate cur) all))"
proof (cases "tags cur = []")
  case True
  then have "filter (relatedCandidate cur) all = []"
    by (auto simp: relatedCandidate_def sharedTags_def filter_empty_conv)
  with True show ?thesis by (simp add: findRelatedPosts_def)
next
  case False
  let ?E = "\<lambda>p. slug p \<noteq> slug cur \<and> \<not> draft p \<and> slug p \<noteq> ''index'' \<and> slug p \<noteq> ''about'' \<and>
                 \<not> startsWith (slug p) ''tags/''"
  let ?g = "\<lambda>p. (p, sharedTags cur p)"
  have f1: "filter (\<lambda>item. snd item > 0) (map ?g (filter ?E all))
        = map ?g (filter (relatedCandidate cur) all)"
  proof -
    have "filter (\<lambda>p. 0 < sharedTags cur p) (filter ?E all) = filter (relatedCandidate cur) all"
      unfolding filter_filter by (rule filter_cong) (auto simp: relatedCandidate_def)
    then show ?thesis by (simp add: filter_map comp_def)
  qed
  have "findRelatedPosts cur all limit =
     map fst (take limit (sortBy (\<lambda>a b. int (snd b) - int (snd a))
        (filter (\<lambda>item. snd item > 0) (map ?g (filter ?E all)))))"
    using False by (simp add: findRelatedPosts_def sharedTags_def)
  also have "\<dots> = map fst (take limit (map ?g
        (sort_key (\<lambda>p. - int (sharedTags cur p)) (filter (relatedCandidate cur) all))))"
    by (simp only: f1 sortBy_sort_key sort_key_map snd_conv)
  also have "\<dots> = take limit (sort_key (\<lambda>p. - int (sharedTags cur p)) (filter (relatedCandidate cur) all))"
    by (simp add: take_map comp_def)
  finally show ?thesis .
qed

lemma sorted_desc:
  "sorted_wrt (\<lambda>a b. f b \<le> (f a :: nat)) (sort_key (\<lambda>p. - int (f p)) xs)"
proof -
  have "sorted (map (\<lambda>p. - int (f p)) (sort_key (\<lambda>p. - int (f p)) xs))"
    by (rule sorted_sort_key)
  then show ?thesis
    by (simp add: sorted_map)
qed

lemma stable_desc:
  "filter (\<lambda>q. f q = (k::nat)) (sort_key (\<lambda>p. - int (f p)) xs) = filter (\<lambda>q. f q = k) xs"
proof -
  have "filter (\<lambda>q. - int (f q) = - int k) (sort_key (\<lambda>p. - int (f p)) xs)
      = filter (\<lambda>q. - int (f q) = - int k) xs"
    by (rule sort_key_stable)
  then show ?thesis by simp
qed

lemma findRelatedPosts_example:
  assumes "tags A = [x, y]" and "tags B = [x]" and "tags C = [z]" and "z \<noteq> x" and "z \<noteq> y"
    and "slug B \<noteq> slug A" and "\<not> draft B" and "slug B \<noteq> ''index''" and "slug B \<noteq> ''about''"
    and "\<not> startsWith (slug B) ''tags/''"
  shows "findRelatedPosts A [A, B, C] defaultLimit = [B]"
proof -
  have "filter (relatedCandidate A) [A, B, C] = [B]"
    using assms by (simp add: relatedCandidate_def sharedTags_def)
  then show ?thesis
    by (simp add: findRelatedPosts_eq defaultLimit_def)
qed

text \<open>
  C6. \<open>findRelatedPosts(P, L, limit)\<close> is the first \<open>limit\<close> entries of the full ranking
  \<open>findRelatedPosts(P, L, |L|)\<close>. The full ranking holds exactly the posts of \<open>L\<close> whose
  slug differs from that of \<open>P\<close>, that are no drafts, whose slug is not \<open>index\<close>, not
  \<open>about\<close> and does not start with \<open>tags/\<close>, and that share at least one tag with \<open>P\<close>; it
  is in descending order of the number of shared tags; and the posts with one and the
  same number of shared tags stand in it in their order in \<open>L\<close>. With \<open>A\<close> tagged
  \<open>x, y\<close>, \<open>B\<close> tagged \<open>x\<close> and \<open>C\<close> tagged \<open>z\<close> the result for \<open>A\<close> at the default limit
  is \<open>[B]\<close>.
\<close>

theorem findRelatedPosts_correct:
  "findRelatedPosts P L limit = take limit (findRelatedPosts P L (length L)) \<and>
   set (findRelatedPosts P L (length L)) = {q \<in> set L. relatedCandidate P q} \<and>
   sorted_wrt (\<lambda>a b. sharedTags P b \<le> sharedTags P a) (findRelatedPosts P L (length L)) \<and>
   (\<forall>k. filter (\<lambda>q. sharedTags P q = k) (findRelatedPosts P L (length L)) =
        filter (\<lambda>q. sharedTags P q = k) (filter (relatedCandidate P) L)) \<and>
   (\<forall>B C x y z. tags P = [x, y] \<and> tags B = [x] \<and> tags C = [z] \<and> z \<noteq> x \<and> z \<noteq> y \<and>
        slug B \<noteq> slug P \<and> \<not> draft B \<and> slug B \<noteq> ''index'' \<and> slug B \<noteq> ''about'' \<and>
        \<not> startsWith (slug B) ''tags/'' \<longrightarrow>
        findRelatedPosts P [P, B, C] defaultLimit = [B])"
proof -
  let ?R = "sort_key (\<lambda>p. - int (sharedTags P p)) (filter (relatedCandidate P) L)"
  have "length ?R \<le> length L" by simp
  then have full: "findRelatedPosts P L (length L) = ?R"
    by (simp add: findRelatedPosts_eq)
  have general: "findRelatedPosts P L limit = take limit (findRelatedPosts P L (length L)) \<and>
   set (findRelatedPosts P L (length L)) = {q \<in> set L. relatedCandidate P q} \<and>
   sorted_wrt (\<lambda>a b. sharedTags P b \<le> sharedTags P a) (findRelatedPosts P L (length L)) \<and>
   (\<forall>k. filter (\<lambda>q. sharedTags P q = k) (findRelatedPosts P L (length L)) =
        filter (\<lambda>q. sharedTags P q = k) (filter (relatedCandidate P) L))"
    unfolding full
    by (simp add: findRelatedPosts_eq sorted_desc stable_desc)
  have example: "\<forall>B C x y z. tags P = [x, y] \<and> tags B = [x] \<and> tags C = [z] \<and> z \<noteq> x \<and> z \<noteq> y \<and>
        slug B \<noteq> slug P \<and> \<not> draft B \<and> slug B \<noteq> ''index'' \<and> slug B \<noteq> ''about'' \<and>
        \<not> startsWith (slug B) ''tags/'' \<longrightarrow>
        findRelatedPosts P [P, B, C] defaultLimit = [B]"
    using findRelatedPosts_example by blast
  from general example show ?thesis by blast
qed

theorem findRelatedPosts_correct_witness:
  "tags (examplePost ''a'' [''x'', ''y'']) = [''x'', ''y''] \<and>
   tags (examplePost ''b'' [''x'']) = [''x''] \<and>
   tags (examplePost ''c'' [''z'']) = [''z''] \<and>
   slug (examplePost ''b'' [''x'']) \<noteq> slug (examplePost ''a'' [''x'', ''y'']) \<and>
   \<not> draft (examplePost ''b'' [''x'']) \<and>
   \<not> startsWith (slug (examplePost ''b'' [''x''])) ''tags/'' \<and>
   findRelatedPosts (examplePost ''a'' [''x'', ''y''])
     [examplePost ''a'' [''x'', ''y''], examplePost ''b'' [''x''], examplePost ''c'' [''z'']]
     defaultLimit = [examplePost ''b'' [''x'']]"
proof -
  let ?A = "examplePost ''a'' [''x'', ''y'']"
  let ?B = "examplePost ''b'' [''x'']"
  let ?C = "examplePost ''c'' [''z'']"
  have hyps: "tags ?A = [''x'', ''y''] \<and> tags ?B = [''x''] \<and> tags ?C = [''z''] \<and>
        ''z'' \<noteq> ''x'' \<and> ''z'' \<noteq> ''y'' \<and>
        slug ?B \<noteq> slug ?A \<and> \<not> draft ?B \<and> slug ?B \<noteq> ''index'' \<and> slug ?B \<noteq> ''about'' \<and>
        \<not> startsWith (slug ?B) ''tags/''"
    by (simp add: examplePost_def startsWith_def)
  from findRelatedPosts_correct[of ?A "[]" 0]
  have "\<forall>B C x y z. tags ?A = [x, y] \<and> tags B = [x] \<and> tags C = [z] \<and> z \<noteq> x \<and> z \<noteq> y \<and>
        slug B \<noteq> slug ?A \<and> \<not> draft B \<and> slug B \<noteq> ''index'' \<and> slug B \<noteq> ''about'' \<and>
        \<not> startsWith (slug B) ''tags/'' \<longrightarrow>
        findRelatedPosts ?A [?A, B, C] defaultLimit = [B]"
    by blast
  then have "findRelatedPosts ?A [?A, ?B, ?C] defaultLimit = [?B]"
    using hyps by blast
  then show ?thesis using hyps by blast
qed

section \<open>Properties of the build cache\<close>

lemma getFileHash_missing: "fs p = None \<Longrightarrow> getFileHash md5 fs p = Inr Null"
  by (simp add: getFileHash_def)

lemma getFileHash_not_undefined: "getFileHash md5 fs p \<noteq> Inr Undefined"
  by (simp add: getFileHash_def split: option.splits fsnode.splits)

lemma getFileHash_not_other: "getFileHash md5 fs p \<noteq> Inr Other"
  by (simp add: getFileHash_def split: option.splits fsnode.splits)

text \<open>
  C10 (as amended). For a path that does not exist, \<open>getFileHash\<close> returns \<open>null\<close>, and
  \<open>needsRebuild\<close> returns true for every snapshot that does not store \<open>null\<close> for the path:
  in particular when the path is absent from the snapshot and when the snapshot holds a
  hash string for it. For a snapshot that stores \<open>null\<close> for the path it returns false.
\<close>

theorem needsRebuild_missing_file:
  "fs p = None \<Longrightarrow>
     getFileHash md5 fs p = Inr Null \<and>
     needsRebuild md5 fs p c = Inr (c p \<noteq> Some Null) \<and>
     (c p = None \<longrightarrow> needsRebuild md5 fs p c = Inr True) \<and>
     (\<forall>h. c p = Some (Str h) \<longrightarrow> needsRebuild md5 fs p c = Inr True)"
proof -
  assume missing: "fs p = None"
  have h: "getFileHash md5 fs p = Inr Null"
    using missing by (rule getFileHash_missing)
  have "strictEquals Null (getProp c p) = (c p = Some Null)"
    by (cases "c p"; cases "getProp c p") (auto simp: getProp_def split: if_splits)
  then have nr: "needsRebuild md5 fs p c = Inr (c p \<noteq> Some Null)"
    by (simp add: needsRebuild_def h)
  show ?thesis using h nr by simp
qed

theorem needsRebuild_missing_file_witness:
  "(Map.empty :: filesystem) ''pages/gone.md'' = None \<and>
   [''pages/gone.md'' \<mapsto> Str ''0cc175b9c0f1b6a831c399e269772661''] ''pages/gone.md''
     = Some (Str ''0cc175b9c0f1b6a831c399e269772661'') \<and>
   getFileHash (\<lambda>s. s) Map.empty ''pages/gone.md'' = Inr Null \<and>
   needsRebuild (\<lambda>s. s) Map.empty ''pages/gone.md''
     [''pages/gone.md'' \<mapsto> Str ''0cc175b9c0f1b6a831c399e269772661''] = Inr True"
  using needsRebuild_missing_file[of Map.empty "''pages/gone.md''" "\<lambda>s. s"
      "[''pages/gone.md'' \<mapsto> Str ''0cc175b9c0f1b6a831c399e269772661'']"]
  by simp

text \<open>
  The claim as stated fails for a snapshot that stores \<open>null\<close> for the missing path:
  \<open>null !== null\<close> is false, and the file is classified as unchanged.
\<close>

theorem needsRebuild_missing_file_counterexample:
  "needsRebuild (\<lambda>s. s) Map.empty ''pages/gone.md'' [''pages/gone.md'' \<mapsto> Null] = Inr False"
  by (simp add: needsRebuild_def getFileHash_def getProp_def)

section \<open>Behaviour of \<open>renderTemplate\<close>\<close>

lemma renderTemplate_plain:
  \<open>renderTemplate ''<h1>{{title}}</h1><p>{{ content }}</p>{{unknown}}{{readingTime}}''
     [(''title'', VStr ''T''), (''content'', VStr ''text''), (''readingTime'', VNum 12)]
   = ''<h1>T</h1><p>text</p>{{unknown}}12''\<close>
  by code_simp

text \<open>
  C7. The claim is that every placeholder whose name is a key is replaced by the value
  of that key. The code hands the value to \<open>String.prototype.replace\<close> as a replacement
  pattern, so a value that contains \<open>$$\<close> arrives with one dollar sign, and a value that
  contains \<open>$'\<close> arrives with the rest of the template in its place. A value that contains
  the placeholder of a later key is substituted again by the replacement for that key.
\<close>

theorem renderTemplate_dollar_patterns:
  \<open>renderTemplate ''<p>{{content}}</p>'' [(''content'', VStr ''US$$ 5'')] = ''<p>US$ 5</p>'' \<and>
   renderTemplate ''<p>{{content}}</p>'' [(''content'', VStr (''x$'' @ [CHR 0x27] @ ''y''))]
     = ''<p>x</p>y</p>'' \<and>
   renderTemplate ''<h1>{{title}}</h1>'' [(''title'', VStr ''{{author}}''), (''author'', VStr ''Bob'')]
     = ''<h1>Bob</h1>''\<close>
  by code_simp

section \<open>Properties of the request sanitizer\<close>

lemma splitSlash_nonempty: "splitSlash s \<noteq> []"
  by (induction s) (auto split: list.splits)

lemma splitSlash_append: "splitSlash (a @ ''/'' @ b) = splitSlash a @ splitSlash b"
proof (induction a)
  case Nil
  then show ?case by simp
next
  case (Cons c a)
  then show ?case
    using splitSlash_nonempty[of a] by (cases "splitSlash a") auto
qed

lemma splitSlash_no_slash: "seg \<in> set (splitSlash s) \<Longrightarrow> CHR ''/'' \<notin> set seg"
  by (induction s arbitrary: seg) (auto split: list.splits if_splits)

lemma splitSlash_single: "CHR ''/'' \<notin> set seg \<Longrightarrow> splitSlash seg = [seg]"
  by (induction seg) auto

lemma splitSlash_joinSlash:
  "segs \<noteq> [] \<Longrightarrow> \<forall>seg \<in> set segs. CHR ''/'' \<notin> set seg \<Longrightarrow> splitSlash (joinSlash segs) = segs"
proof (induction segs rule: joinSlash.induct)
  case 1
  then show ?case by simp
next
  case (2 seg)
  then show ?case by (simp add: splitSlash_single)
next
  case (3 seg v va)
  have "splitSlash (seg @ ''/'' @ joinSlash (v # va)) = splitSlash seg @ splitSlash (joinSlash (v # va))"
    by (rule splitSlash_append)
  then show ?case using 3 by (simp add: splitSlash_single)
qed

lemma step_noop: "seg = '''' \<or> seg = ''.'' \<Longrightarrow> normalizeStep a res seg = res"
  by (auto simp: normalizeStep_def)

lemma step_plain: "plainSegment seg \<Longrightarrow> normalizeStep a res seg = res @ [seg]"
  by (auto simp: normalizeStep_def plainSegment_def)

lemma fold_plain:
  "\<forall>seg \<in> set segs. plainSegment seg \<Longrightarrow> foldl (normalizeStep a) st segs = st @ segs"
  by (induction segs arbitrary: st) (auto simp: step_plain)

lemma fold_no_dotdot:
  "''..'' \<notin> set segs \<Longrightarrow>
     foldl (normalizeStep a) st segs = st @ filter plainSegment segs"
proof (induction segs arbitrary: st)
  case Nil
  then show ?case by simp
next
  case (Cons s segs)
  then show ?case
    by (cases "plainSegment s") (auto simp: step_plain step_noop plainSegment_def)
qed

lemma step_elems:
  "\<forall>x \<in> set res. x \<noteq> '''' \<and> x \<noteq> ''.'' \<Longrightarrow> \<forall>x \<in> set (normalizeStep a res seg). x \<noteq> '''' \<and> x \<noteq> ''.''"
  by (auto simp: normalizeStep_def dest: in_set_butlastD)

lemma fold_elems:
  "\<forall>x \<in> set st. x \<noteq> '''' \<and> x \<noteq> ''.'' \<Longrightarrow>
     \<forall>x \<in> set (foldl (normalizeStep a) st segs). x \<noteq> '''' \<and> x \<noteq> ''.''"
proof (induction segs arbitrary: st)
  case Nil
  then show ?case by simp
next
  case (Cons s segs)
  show ?case using Cons.IH[OF step_elems[OF Cons.prems]] by simp
qed

lemma step_abs_plain:
  "\<forall>x \<in> set res. plainSegment x \<Longrightarrow> \<forall>x \<in> set (normalizeStep False res seg). plainSegment x"
  by (auto simp: normalizeStep_def plainSegment_def dest: in_set_butlastD)

lemma fold_abs_plain:
  "\<forall>x \<in> set st. plainSegment x \<Longrightarrow> \<forall>x \<in> set (foldl (normalizeStep False) st segs). plainSegment x"
proof (induction segs arbitrary: st)
  case Nil
  then show ?case by simp
next
  case (Cons s segs)
  show ?case using Cons.IH[OF step_abs_plain[OF Cons.prems]] by simp
qed

lemma step_subset: "set (normalizeStep a res seg) \<subseteq> insert seg (set res)"
  by (auto simp: normalizeStep_def dest: in_set_butlastD)

lemma fold_subset: "set (foldl (normalizeStep a) st segs) \<subseteq> set st \<union> set segs"
proof (induction segs arbitrary: st)
  case Nil
  then show ?case by simp
next
  case (Cons s segs)
  show ?case using Cons.IH[of "normalizeStep a st s"] step_subset[of a st s] by auto
qed

lemma renormalize_rel:
  "foldl (normalizeStep False) st (foldl (normalizeStep True) [] segs)
     = foldl (normalizeStep False) st segs"
proof (induction segs rule: rev_induct)
  case Nil
  then show ?case by simp
next
  case (snoc s segs)
  let ?R = "foldl (normalizeStep True) [] segs"
  let ?T = "foldl (normalizeStep False) st segs"
  have elems: "\<forall>x \<in> set ?R. x \<noteq> '''' \<and> x \<noteq> ''.''"
    by (rule fold_elems) simp
  show ?case
  proof (cases "s = ''..'' \<and> ?R \<noteq> [] \<and> last ?R \<noteq> ''..''")
    case True
    then have pl: "plainSegment (last ?R)"
      using elems by (auto simp: plainSegment_def)
    have R: "?R = butlast ?R @ [last ?R]" using True by simp
    have "?T = foldl (normalizeStep False) st (butlast ?R @ [last ?R])"
      using snoc.IH R by simp
    then have T: "?T = foldl (normalizeStep False) st (butlast ?R) @ [last ?R]"
      using pl by (simp add: step_plain)
    have "normalizeStep False (foldl (normalizeStep False) st (butlast ?R) @ [last ?R]) ''..''
        = foldl (normalizeStep False) st (butlast ?R)"
      using True by (simp add: normalizeStep_def)
    then have "normalizeStep False ?T ''..'' = foldl (normalizeStep False) st (butlast ?R)"
      using T by simp
    moreover have "normalizeStep True ?R s = butlast ?R"
      using True by (simp add: normalizeStep_def)
    ultimately show ?thesis using True by simp
  next
    case False
    then have "normalizeStep True ?R s = ?R \<or> normalizeStep True ?R s = ?R @ [s]"
      by (auto simp: normalizeStep_def)
    then show ?thesis
    proof
      assume same: "normalizeStep True ?R s = ?R"
      then have "s = '''' \<or> s = ''.''" using False
        by (auto simp: normalizeStep_def split: if_splits)
      then show ?thesis using snoc.IH same by (simp add: step_noop)
    next
      assume "normalizeStep True ?R s = ?R @ [s]"
      then show ?thesis using snoc.IH by simp
    qed
  qed
qed

lemma renormalize_abs:
  "foldl (normalizeStep False) [] (foldl (normalizeStep False) [] segs)
     = foldl (normalizeStep False) [] segs"
proof -
  have "\<forall>x \<in> set (foldl (normalizeStep False) [] segs). plainSegment x"
    by (rule fold_abs_plain) simp
  then show ?thesis by (simp add: fold_plain)
qed

lemma fold_split_append:
  "foldl (normalizeStep a) st (splitSlash (x @ ''/'' @ y))
     = foldl (normalizeStep a) (foldl (normalizeStep a) st (splitSlash x)) (splitSlash y)"
  by (simp only: splitSlash_append foldl_append)

lemma fold_split_trailing:
  "foldl (normalizeStep a) st (splitSlash (x @ ''/'')) = foldl (normalizeStep a) st (splitSlash x)"
proof -
  have "foldl (normalizeStep a) st (splitSlash (x @ ''/'' @ []))
      = foldl (normalizeStep a) (foldl (normalizeStep a) st (splitSlash x)) (splitSlash [])"
    by (rule fold_split_append)
  then show ?thesis by (simp add: step_noop)
qed

lemma fold_split_leading:
  "foldl (normalizeStep a) st (splitSlash (CHR ''/'' # x)) = foldl (normalizeStep a) st (splitSlash x)"
  by (simp add: step_noop)

lemma fold_split_empty: "foldl (normalizeStep a) st (splitSlash []) = st"
  by (simp add: step_noop)

lemma pathResolve_segments:
  assumes "isAbsolute cwd"
  shows "pathResolve cwd path = ''/'' @ joinSlash (resolveSegments cwd path)"
proof (cases "isAbsolute path")
  case True
  then have ne: "path \<noteq> []" by (auto simp: isAbsolute_def)
  show ?thesis using True ne
    by (simp add: pathResolve_def Let_def resolveSegments_def normalizeString_def
        normalizeSegments_def fold_split_trailing)
next
  case False
  have cw: "cwd \<noteq> []" using assms by (auto simp: isAbsolute_def)
  show ?thesis
  proof (cases "path = []")
    case True
    then show ?thesis using False cw assms
      by (simp add: pathResolve_def Let_def resolveSegments_def normalizeString_def
          normalizeSegments_def cwdSegments_def fold_split_trailing step_noop)
  next
    case ne: False
    have "foldl (normalizeStep False) [] (splitSlash (cwd @ ''/'' @ path @ ''/''))
        = foldl (normalizeStep False) (cwdSegments cwd) (splitSlash path)"
      by (simp only: fold_split_append fold_split_trailing cwdSegments_def normalizeSegments_def)
    then show ?thesis using False cw assms ne
      by (simp add: pathResolve_def Let_def resolveSegments_def normalizeString_def
          normalizeSegments_def)
  qed
qed

lemma joinSlash_empty_iff:
  "\<forall>x \<in> set segs. x \<noteq> [] \<Longrightarrow> joinSlash segs = [] \<longleftrightarrow> segs = []"
  by (induction segs rule: joinSlash.induct) auto

lemma joinSlash_hd:
  "segs \<noteq> [] \<Longrightarrow> \<forall>x \<in> set segs. x \<noteq> [] \<and> CHR ''/'' \<notin> set x \<Longrightarrow> hd (joinSlash segs) \<noteq> CHR ''/''"
proof -
  assume ne: "segs \<noteq> []" and ok: "\<forall>x \<in> set segs. x \<noteq> [] \<and> CHR ''/'' \<notin> set x"
  obtain seg rest where segs: "segs = seg # rest" using ne by (cases segs) auto
  then have seg: "seg \<noteq> []" "CHR ''/'' \<notin> set seg" using ok by auto
  then have "hd seg \<noteq> CHR ''/''" by (cases seg) auto
  moreover have "hd (joinSlash segs) = hd seg"
    using segs seg by (cases rest) (auto simp: hd_append)
  ultimately show ?thesis by simp
qed

lemma normalized_segments_ok:
  "\<forall>x \<in> set (foldl (normalizeStep a) [] (splitSlash J)). x \<noteq> [] \<and> CHR ''/'' \<notin> set x"
proof
  fix x assume x: "x \<in> set (foldl (normalizeStep a) [] (splitSlash J))"
  have "x \<noteq> '''' \<and> x \<noteq> ''.''" using fold_elems[of "[]" a "splitSlash J"] x by simp
  moreover have "x \<in> set (splitSlash J)" using fold_subset[of a "[]" "splitSlash J"] x by auto
  ultimately show "x \<noteq> [] \<and> CHR ''/'' \<notin> set x" using splitSlash_no_slash by auto
qed

lemma resolve_normalize:
  assumes J: "J \<noteq> []"
  shows "resolveSegments cwd (normalize J) = resolveSegments cwd J"
proof -
  let ?abs = "isAbsolute J"
  let ?R = "foldl (normalizeStep (\<not> ?abs)) [] (splitSlash J)"
  let ?st = "if ?abs then [] else cwdSegments cwd"
  have ok: "\<forall>x \<in> set ?R. x \<noteq> [] \<and> CHR ''/'' \<notin> set x" by (rule normalized_segments_ok)
  have target: "foldl (normalizeStep False) ?st ?R = resolveSegments cwd J"
  proof (cases ?abs)
    case True
    then show ?thesis by (simp add: resolveSegments_def renormalize_abs)
  next
    case False
    then show ?thesis by (simp add: resolveSegments_def renormalize_rel)
  qed
  show ?thesis
  proof (cases "?R = []")
    case True
    then have p0: "normalizeString J (\<not> ?abs) = []"
      by (simp add: normalizeString_def normalizeSegments_def)
    have "normalize J = ''/'' \<and> ?abs \<or> normalize J = ''./'' \<and> \<not> ?abs \<or> normalize J = ''.'' \<and> \<not> ?abs"
      using J p0 by (auto simp: normalize_def Let_def)
    then have "resolveSegments cwd (normalize J) = ?st"
      by (auto simp: resolveSegments_def isAbsolute_def step_noop)
    then show ?thesis using target True by simp
  next
    case False
    let ?p = "joinSlash ?R"
    have pne: "?p \<noteq> []" using False ok by (simp add: joinSlash_empty_iff)
    have p0: "normalizeString J (\<not> ?abs) = ?p"
      by (simp add: normalizeString_def normalizeSegments_def)
    have hdp: "hd ?p \<noteq> CHR ''/''" using False ok by (intro joinSlash_hd) auto
    have sp: "splitSlash ?p = ?R" using False ok by (intro splitSlash_joinSlash) auto
    let ?q = "if last J = CHR ''/'' then ?p @ ''/'' else ?p"
    have N: "normalize J = (if ?abs then ''/'' @ ?q else ?q)"
      using J p0 pne by (simp add: normalize_def Let_def)
    have qne: "?q \<noteq> []" using pne by simp
    have hdq: "hd ?q \<noteq> CHR ''/''" using pne hdp by (simp add: hd_append)
    have absN: "isAbsolute (normalize J) = ?abs"
    proof (cases ?abs)
      case True
      then show ?thesis by (simp add: N isAbsolute_def)
    next
      case False
      then have "normalize J = ?q" by (simp only: N if_False)
      then show ?thesis using False qne hdq by (simp only: isAbsolute_def) simp
    qed
    have fq: "\<And>st. foldl (normalizeStep False) st (splitSlash ?q)
                = foldl (normalizeStep False) st ?R"
      using sp fold_split_trailing[of False _ ?p] by (cases "last J = CHR ''/''") simp_all
    have f: "\<And>st. foldl (normalizeStep False) st (splitSlash (normalize J))
                = foldl (normalizeStep False) st ?R"
    proof (cases ?abs)
      case True
      then have "normalize J = CHR ''/'' # ?q" by (simp only: N if_True) simp
      then show "\<And>st. foldl (normalizeStep False) st (splitSlash (normalize J))
                = foldl (normalizeStep False) st ?R"
        using fq by (simp only: fold_split_leading)
    next
      case False
      then have "normalize J = ?q" by (simp only: N if_False)
      then show "\<And>st. foldl (normalizeStep False) st (splitSlash (normalize J))
                = foldl (normalizeStep False) st ?R"
        using fq by simp
    qed
    show ?thesis using target absN f by (simp add: resolveSegments_def)
  qed
qed

lemma startsWith_strIncludes: "startsWith s sub \<Longrightarrow> strIncludes s sub"
  by (cases s) (auto simp: startsWith_def)

lemma strIncludes_substring: "s = pre @ sub @ suf \<Longrightarrow> strIncludes s sub"
proof (induction pre arbitrary: s)
  case Nil
  then have "startsWith s sub" by (simp add: startsWith_def)
  then show ?case by (rule startsWith_strIncludes)
next
  case (Cons c pre)
  then show ?case by auto
qed

lemma segment_substring: "seg \<in> set (splitSlash s) \<Longrightarrow> \<exists>pre suf. s = pre @ seg @ suf"
proof (induction s arbitrary: seg)
  case Nil
  then show ?case by simp
next
  case (Cons c s)
  show ?case
  proof (cases "c = CHR ''/''")
    case True
    with Cons.prems have "seg = [] \<or> seg \<in> set (splitSlash s)" by auto
    then show ?thesis
    proof
      assume "seg = []"
      then show ?thesis by auto
    next
      assume "seg \<in> set (splitSlash s)"
      then obtain pre suf where "s = pre @ seg @ suf" using Cons.IH by blast
      then have "c # s = (c # pre) @ seg @ suf" by simp
      then show ?thesis by blast
    qed
  next
    case False
    obtain h t where ht: "splitSlash s = h # t"
      using splitSlash_nonempty[of s] by (cases "splitSlash s") auto
    with False Cons.prems have "seg = c # h \<or> seg \<in> set t" by auto
    then show ?thesis
    proof
      assume seg: "seg = c # h"
      have "h \<in> set (splitSlash s)" using ht by simp
      moreover have "splitSlash s = [] @ h # t" using ht by simp
      ultimately have "\<exists>suf. s = h @ suf"
        using ht
      proof (induction s arbitrary: h t)
        case Nil
        then show ?case by auto
      next
        case (Cons d s)
        show ?case
        proof (cases "d = CHR ''/''")
          case True
          with Cons.prems(3) have "h = []" by simp
          then show ?thesis by simp
        next
          case False
          obtain h' t' where ht': "splitSlash s = h' # t'"
            using splitSlash_nonempty[of s] by (cases "splitSlash s") auto
          with False Cons.prems(3) have h: "h = d # h'" by simp
          have "\<exists>suf. s = h' @ suf"
            using Cons.IH[of h' t'] ht' by simp
          then show ?thesis using h by auto
        qed
      qed
      then obtain suf where "s = h @ suf" by blast
      then have "c # s = [] @ seg @ suf" using seg by simp
      then show ?thesis by blast
    next
      assume "seg \<in> set t"
      then have "seg \<in> set (splitSlash s)" using ht by simp
      then obtain pre suf where "s = pre @ seg @ suf" using Cons.IH by blast
      then have "c # s = (c # pre) @ seg @ suf" by simp
      then show ?thesis by blast
    qed
  qed
qed

lemma no_dotdot_segment: "\<not> strIncludes D ''..'' \<Longrightarrow> ''..'' \<notin> set (splitSlash D)"
  using segment_substring strIncludes_substring by blast

lemma resolve_join:
  assumes out: "out \<noteq> []" and nd: "\<not> strIncludes D ''..''"
  shows "resolveSegments cwd (pathJoin [out, D])
       = resolveSegments cwd out @ filter plainSegment (splitSlash D)"
proof -
  let ?J = "if D = [] then out else out @ ''/'' @ D"
  have pj: "pathJoin [out, D] = normalize ?J"
    using out by (simp add: pathJoin_def)
  have Jne: "?J \<noteq> []" using out by simp
  have absJ: "isAbsolute ?J = isAbsolute out"
    using out by (simp add: isAbsolute_def)
  have nds: "''..'' \<notin> set (splitSlash D)" using nd by (rule no_dotdot_segment)
  have "\<And>st. foldl (normalizeStep False) st (splitSlash ?J)
          = foldl (normalizeStep False) (foldl (normalizeStep False) st (splitSlash out)) (splitSlash D)"
  proof (cases "D = []")
    case True
    then show "\<And>st. foldl (normalizeStep False) st (splitSlash ?J)
          = foldl (normalizeStep False) (foldl (normalizeStep False) st (splitSlash out)) (splitSlash D)"
      by (simp add: step_noop)
  next
    case False
    then show "\<And>st. foldl (normalizeStep False) st (splitSlash ?J)
          = foldl (normalizeStep False) (foldl (normalizeStep False) st (splitSlash out)) (splitSlash D)"
      by (simp only: if_False fold_split_append)
  qed
  then have "resolveSegments cwd ?J
      = foldl (normalizeStep False) (resolveSegments cwd out) (splitSlash D)"
    by (simp only: resolveSegments_def absJ)
  also have "\<dots> = resolveSegments cwd out @ filter plainSegment (splitSlash D)"
    using nds by (rule fold_no_dotdot)
  finally show ?thesis
    by (simp only: pj resolve_normalize[OF Jne])
qed

lemma joinSlash_append:
  "xs \<noteq> [] \<Longrightarrow> ys \<noteq> [] \<Longrightarrow> joinSlash (xs @ ys) = joinSlash xs @ ''/'' @ joinSlash ys"
  by (induction xs rule: joinSlash.induct) (auto, (cases ys; simp)+)

lemma resolveSegments_plain: "\<forall>x \<in> set (resolveSegments cwd path). plainSegment x"
  unfolding resolveSegments_def cwdSegments_def normalizeSegments_def
  by (intro fold_abs_plain) (auto intro: fold_abs_plain[of "[]", simplified, rule_format])

lemma sanitizePath_inside:
  assumes cwd: "isAbsolute cwd" and out: "outputDir \<noteq> []"
    and res: "sanitizePath cwd urlPath outputDir = Some p"
  shows "insideRoot (pathResolve cwd outputDir) p"
proof -
  from res obtain D where D: "decodeURIComponent urlPath = Some D"
    and nd: "\<not> strIncludes D ''..''"
    and p: "p = pathResolve cwd (pathJoin [outputDir, D])"
    by (auto simp: sanitizePath_def Let_def split: option.splits if_splits)
  let ?root = "resolveSegments cwd outputDir"
  let ?extra = "filter plainSegment (splitSlash D)"
  have pseg: "p = ''/'' @ joinSlash (?root @ ?extra)"
    using p pathResolve_segments[OF cwd] resolve_join[OF out nd] by simp
  have rseg: "pathResolve cwd outputDir = ''/'' @ joinSlash ?root"
    using pathResolve_segments[OF cwd] by simp
  show ?thesis
  proof (cases "?extra = []")
    case True
    then show ?thesis using pseg rseg by (simp add: insideRoot_def)
  next
    case ex: False
    show ?thesis
    proof (cases "?root = []")
      case True
      then show ?thesis using pseg rseg by (simp add: insideRoot_def startsWith_def)
    next
      case False
      have "\<forall>x \<in> set ?root. x \<noteq> []"
        using resolveSegments_plain[of cwd outputDir] by (auto simp: plainSegment_def)
      then have "joinSlash ?root \<noteq> []" using False by (simp add: joinSlash_empty_iff)
      then have rne: "pathResolve cwd outputDir \<noteq> ''/''" using rseg by simp
      have "p = pathResolve cwd outputDir @ ''/'' @ joinSlash ?extra"
        using pseg rseg joinSlash_append[OF False ex] by simp
      then show ?thesis using rne by (simp add: insideRoot_def startsWith_def)
    qed
  qed
qed

lemma normalize_nonempty: "normalize J \<noteq> []"
  by (auto simp: normalize_def Let_def)

lemma pathJoin_nonempty: "pathJoin args \<noteq> []"
  by (simp add: pathJoin_def Let_def normalize_nonempty)

lemma sanitizePath_rejects:
  "decodeURIComponent urlPath = Some d \<Longrightarrow>
     strIncludes d ''..'' \<or> strIncludes d ''//'' \<or> strIncludes d [CHR 0x5C] \<Longrightarrow>
     sanitizePath cwd urlPath outputDir = None"
  by (simp add: sanitizePath_def)

lemma decode_passwd: "decodeURIComponent ''/../../etc/passwd.html'' = Some ''/../../etc/passwd.html''"
  by code_simp

lemma decode_escaped_dots: "decodeURIComponent ''/%2e%2e/secret.html'' = Some ''/../secret.html''"
  by code_simp

lemma route_passwd: "requestRoute cwd projectDir ''/../../etc/passwd'' = Forbidden"
proof -
  have rp: "requestPath ''/../../etc/passwd'' = ''/../../etc/passwd.html''"
    by code_simp
  have inc: "strIncludes ''/../../etc/passwd.html'' ''..''"
    by code_simp
  have "sanitizePath cwd ''/../../etc/passwd.html'' (pathJoin [projectDir, ''public'']) = None"
    using decode_passwd inc by (intro sanitizePath_rejects) auto
  then show ?thesis
    by (simp add: requestRoute_def rp)
qed

lemma route_escaped_dots: "requestRoute cwd projectDir ''/%2e%2e/secret'' = Forbidden"
proof -
  have rp: "requestPath ''/%2e%2e/secret'' = ''/%2e%2e/secret.html''"
    by code_simp
  have inc: "strIncludes ''/../secret.html'' ''..''"
    by code_simp
  have "sanitizePath cwd ''/%2e%2e/secret.html'' (pathJoin [projectDir, ''public'']) = None"
    using decode_escaped_dots inc by (intro sanitizePath_rejects) auto
  then show ?thesis
    by (simp add: requestRoute_def rp)
qed

text \<open>
  C8. With the working directory an absolute path, \<open>sanitizePath\<close> returns no path when
  the requested path cannot be decoded and when the decoded path contains \<open>..\<close>, \<open>//\<close> or
  a backslash, and every path it returns lies inside the resolved output directory. So
  the request handler answers a request with 403, or with the event stream, or goes on
  with a file path inside the output root; a request whose decoded path contains \<open>..\<close>,
  such as \<open>/../../etc/passwd\<close> or one written with \<open>%2e%2e\<close>, is answered with 403 and
  reaches no file.
\<close>

theorem sanitizePath_safe:
  assumes cwd: "isAbsolute cwd"
  shows
    "(decodeURIComponent urlPath = None \<longrightarrow> sanitizePath cwd urlPath outputDir = None) \<and>
     (\<forall>d. decodeURIComponent urlPath = Some d \<and>
          (strIncludes d ''..'' \<or> strIncludes d ''//'' \<or> strIncludes d [CHR 0x5C]) \<longrightarrow>
          sanitizePath cwd urlPath outputDir = None) \<and>
     (\<forall>p. outputDir \<noteq> [] \<and> sanitizePath cwd urlPath outputDir = Some p \<longrightarrow>
          insideRoot (pathResolve cwd outputDir) p) \<and>
     (requestRoute cwd projectDir reqUrl = Forbidden \<or>
      requestRoute cwd projectDir reqUrl = LiveReload \<or>
      (\<exists>p. requestRoute cwd projectDir reqUrl = ServeFile p \<and>
           insideRoot (pathResolve cwd (pathJoin [projectDir, ''public''])) p)) \<and>
     (\<forall>d. takeWhile (\<lambda>c. c \<noteq> CHR ''?'') reqUrl \<noteq> ''/__live-reload'' \<and>
          decodeURIComponent (requestPath (takeWhile (\<lambda>c. c \<noteq> CHR ''?'') reqUrl)) = Some d \<and>
          strIncludes d ''..'' \<longrightarrow>
          requestRoute cwd projectDir reqUrl = Forbidden) \<and>
     requestRoute cwd projectDir ''/../../etc/passwd'' = Forbidden \<and>
     requestRoute cwd projectDir ''/%2e%2e/secret'' = Forbidden"
proof (intro conjI allI impI)
  assume "decodeURIComponent urlPath = None"
  then show "sanitizePath cwd urlPath outputDir = None"
    by (simp add: sanitizePath_def)
next
  fix d
  assume "decodeURIComponent urlPath = Some d \<and>
          (strIncludes d ''..'' \<or> strIncludes d ''//'' \<or> strIncludes d [CHR 0x5C])"
  then show "sanitizePath cwd urlPath outputDir = None"
    using sanitizePath_rejects by blast
next
  fix p
  assume "outputDir \<noteq> [] \<and> sanitizePath cwd urlPath outputDir = Some p"
  then show "insideRoot (pathResolve cwd outputDir) p"
    using sanitizePath_inside[OF cwd] by blast
next
  let ?out = "pathJoin [projectDir, ''public'']"
  let ?url = "takeWhile (\<lambda>c. c \<noteq> CHR ''?'') reqUrl"
  show "requestRoute cwd projectDir reqUrl = Forbidden \<or>
      requestRoute cwd projectDir reqUrl = LiveReload \<or>
      (\<exists>p. requestRoute cwd projectDir reqUrl = ServeFile p \<and> insideRoot (pathResolve cwd ?out) p)"
  proof (cases "?url = ''/__live-reload''")
    case True
    then show ?thesis by (simp add: requestRoute_def Let_def)
  next
    case False
    show ?thesis
    proof (cases "sanitizePath cwd (requestPath ?url) ?out")
      case None
      then show ?thesis using False by (simp add: requestRoute_def Let_def)
    next
      case (Some p)
      then have "insideRoot (pathResolve cwd ?out) p"
        using sanitizePath_inside[OF cwd pathJoin_nonempty] by blast
      then show ?thesis using False Some by (simp add: requestRoute_def Let_def)
    qed
  qed
next
  fix d
  assume a: "takeWhile (\<lambda>c. c \<noteq> CHR ''?'') reqUrl \<noteq> ''/__live-reload'' \<and>
          decodeURIComponent (requestPath (takeWhile (\<lambda>c. c \<noteq> CHR ''?'') reqUrl)) = Some d \<and>
          strIncludes d ''..''"
  then have "sanitizePath cwd (requestPath (takeWhile (\<lambda>c. c \<noteq> CHR ''?'') reqUrl))
      (pathJoin [projectDir, ''public'']) = None"
    by (intro sanitizePath_rejects[of _ d]) auto
  then show "requestRoute cwd projectDir reqUrl = Forbidden"
    using a by (simp add: requestRoute_def Let_def)
next
  show "requestRoute cwd projectDir ''/../../etc/passwd'' = Forbidden"
    by (rule route_passwd)
  show "requestRoute cwd projectDir ''/%2e%2e/secret'' = Forbidden"
    by (rule route_escaped_dots)
qed

theorem sanitizePath_safe_witness:
  "isAbsolute ''/home/u'' \<and>
   decodeURIComponent ''/%zz'' = None \<and>
   sanitizePath ''/home/u'' ''/%zz'' ''blog/public'' = None \<and>
   decodeURIComponent ''/a%5Cb'' = Some [CHR ''/'', CHR ''a'', CHR 0x5C, CHR ''b''] \<and>
   sanitizePath ''/home/u'' ''/a%5Cb'' ''blog/public'' = None \<and>
   ''blog/public'' \<noteq> [] \<and>
   sanitizePath ''/home/u'' ''/posts/a.html'' ''blog/public'' = Some ''/home/u/blog/public/posts/a.html'' \<and>
   insideRoot (pathResolve ''/home/u'' ''blog/public'') ''/home/u/blog/public/posts/a.html'' \<and>
   requestRoute ''/home/u'' ''blog'' ''/posts/a?draft=1'' = ServeFile ''/home/u/blog/public/posts/a.html'' \<and>
   requestRoute ''/home/u'' ''blog'' ''/x/%2E%2E/%2E%2E/y'' = Forbidden"
proof -
  have cwd: "isAbsolute ''/home/u''" by code_simp
  have d1: "decodeURIComponent ''/%zz'' = None" by code_simp
  have d2: "decodeURIComponent ''/a%5Cb'' = Some [CHR ''/'', CHR ''a'', CHR 0x5C, CHR ''b'']" by code_simp
  have i2: "strIncludes [CHR ''/'', CHR ''a'', CHR 0x5C, CHR ''b''] [CHR 0x5C]" by code_simp
  have s3: "sanitizePath ''/home/u'' ''/posts/a.html'' ''blog/public'' = Some ''/home/u/blog/public/posts/a.html''"
    by code_simp
  have r4: "requestRoute ''/home/u'' ''blog'' ''/posts/a?draft=1'' = ServeFile ''/home/u/blog/public/posts/a.html''"
    by code_simp
  have t5: "takeWhile (\<lambda>c. c \<noteq> CHR ''?'') ''/x/%2E%2E/%2E%2E/y'' \<noteq> ''/__live-reload''" by code_simp
  have d5: "decodeURIComponent (requestPath (takeWhile (\<lambda>c. c \<noteq> CHR ''?'') ''/x/%2E%2E/%2E%2E/y'')) = Some ''/x/../../y.html''"
    by code_simp
  have i5: "strIncludes ''/x/../../y.html'' ''..''" by code_simp
  note a = sanitizePath_safe[OF cwd, of "''/%zz''" "''blog/public''" "''blog''" "''/x/%2E%2E/%2E%2E/y''"]
  note b = sanitizePath_safe[OF cwd, of "''/a%5Cb''" "''blog/public''" "''blog''" "''/posts/a?draft=1''"]
  note c = sanitizePath_safe[OF cwd, of "''/posts/a.html''" "''blog/public''" "''blog''" "''/posts/a?draft=1''"]
  have w1: "sanitizePath ''/home/u'' ''/%zz'' ''blog/public'' = None"
    using a d1 by blast
  have w2: "sanitizePath ''/home/u'' ''/a%5Cb'' ''blog/public'' = None"
    using b d2 i2 by blast
  have w3: "insideRoot (pathResolve ''/home/u'' ''blog/public'') ''/home/u/blog/public/posts/a.html''"
    using c s3 by blast
  have w5: "requestRoute ''/home/u'' ''blog'' ''/x/%2E%2E/%2E%2E/y'' = Forbidden"
    using a t5 d5 i5 by blast
  show ?thesis
    using cwd d1 w1 d2 w2 s3 w3 r4 w5 by simp
qed

section \<open>Properties of a build pass\<close>

lemma bindE_Inr: "bindE m f = Inr y \<longleftrightarrow> (\<exists>x. m = Inr x \<and> f x = Inr y)"
  by (cases m) (auto simp: bindE_def)

lemma bindE_Inl: "bindE m f = Inl e \<longleftrightarrow> (m = Inl e \<or> (\<exists>x. m = Inr x \<and> f x = Inl e))"
  by (cases m) (auto simp: bindE_def)

lemma written_writeFile: "written (writeFile path text st) = written st @ [(path, text)]"
  by (simp add: writeFile_def)

lemma written_writeIfHtml:
  "written (writeIfHtml path html st) =
     written st @ (case html of None \<Rightarrow> [] | Some h \<Rightarrow> if h = [] then [] else [(path, h)])"
  by (simp add: writeIfHtml_def written_writeFile split: option.splits)

lemma buildPosts_rebuilt:
  "buildPosts lib incr fs c templates cfg allPosts ps (st, rb) = Inr (st', rb') \<Longrightarrow>
     rb' = rb @ filter (\<lambda>q. \<not> draft q \<and> needsBuild lib incr fs c q = Inr True) ps"
proof (induction ps arbitrary: st rb)
  case Nil
  then show ?case by simp
next
  case (Cons p ps)
  show ?case
  proof (cases "draft p")
    case True
    with Cons show ?thesis by simp
  next
    case False
    from Cons.prems False obtain nb where nb: "needsBuild lib incr fs c p = Inr nb"
      and rest: "(if nb then
            bindE (buildPost lib p templates allPosts cfg) (\<lambda>html.
              buildPosts lib incr fs c templates cfg allPosts ps
                (writeIfHtml (slug p @ ''.html'') html st, rb @ [p]))
          else buildPosts lib incr fs c templates cfg allPosts ps (st, rb)) = Inr (st', rb')"
      by (auto simp: bindE_Inr)
    show ?thesis
    proof (cases nb)
      case True
      with rest obtain html where
        "buildPosts lib incr fs c templates cfg allPosts ps
                (writeIfHtml (slug p @ ''.html'') html st, rb @ [p]) = Inr (st', rb')"
        by (auto simp: bindE_Inr)
      from Cons.IH[OF this] show ?thesis using False nb True by simp
    next
      case nbF: False
      with rest have "buildPosts lib incr fs c templates cfg allPosts ps (st, rb) = Inr (st', rb')"
        by simp
      from Cons.IH[OF this] show ?thesis using False nb nbF by simp
    qed
  qed
qed

lemma buildPosts_written:
  "buildPosts lib incr fs c templates cfg allPosts ps (st, rb) = Inr (st', rb') \<Longrightarrow>
     q \<in> set ps \<Longrightarrow> \<not> draft q \<Longrightarrow> needsBuild lib incr fs c q = Inr True \<Longrightarrow>
     buildPost lib q templates allPosts cfg = Inr (Some h) \<Longrightarrow> h \<noteq> [] \<Longrightarrow>
     (slug q @ ''.html'', h) \<in> set (written st')"
  and buildPosts_written_mono:
  "buildPosts lib incr fs c templates cfg allPosts ps (st, rb) = Inr (st', rb') \<Longrightarrow>
     set (written st) \<subseteq> set (written st')"
proof (induction ps arbitrary: st rb)
  case Nil
  { case 1 then show ?case by simp }
  { case 2 then show ?case by simp }
next
  case (Cons p ps)
  {
    case 2
    show ?case
    proof (cases "draft p")
      case True
      with 2 Cons.IH(2) show ?thesis by simp
    next
      case False
      from 2 False obtain nb where nb: "needsBuild lib incr fs c p = Inr nb"
        and rest: "(if nb then
            bindE (buildPost lib p templates allPosts cfg) (\<lambda>html.
              buildPosts lib incr fs c templates cfg allPosts ps
                (writeIfHtml (slug p @ ''.html'') html st, rb @ [p]))
          else buildPosts lib incr fs c templates cfg allPosts ps (st, rb)) = Inr (st', rb')"
        by (auto simp: bindE_Inr)
      show ?thesis
      proof (cases nb)
        case True
        with rest obtain html where
          "buildPosts lib incr fs c templates cfg allPosts ps
                (writeIfHtml (slug p @ ''.html'') html st, rb @ [p]) = Inr (st', rb')"
          by (auto simp: bindE_Inr)
        from Cons.IH(2)[OF this] show ?thesis by (auto simp: written_writeIfHtml)
      next
        case nbF: False
        with rest Cons.IH(2) show ?thesis by simp
      qed
    qed
  }
  note mono = this
  {
    case 1
    show ?case
    proof (cases "draft p")
      case True
      with 1 Cons.IH(1) show ?thesis by auto
    next
      case False
      from 1(1) False obtain nb where nb: "needsBuild lib incr fs c p = Inr nb"
        and rest: "(if nb then
            bindE (buildPost lib p templates allPosts cfg) (\<lambda>html.
              buildPosts lib incr fs c templates cfg allPosts ps
                (writeIfHtml (slug p @ ''.html'') html st, rb @ [p]))
          else buildPosts lib incr fs c templates cfg allPosts ps (st, rb)) = Inr (st', rb')"
        by (auto simp: bindE_Inr)
      show ?thesis
      proof (cases nb)
        case True
        with rest obtain html where html: "buildPost lib p templates allPosts cfg = Inr html"
          and r: "buildPosts lib incr fs c templates cfg allPosts ps
                (writeIfHtml (slug p @ ''.html'') html st, rb @ [p]) = Inr (st', rb')"
          by (auto simp: bindE_Inr)
        show ?thesis
        proof (cases "q = p")
          case qp: True
          then have "(slug q @ ''.html'', h) \<in> set (written (writeIfHtml (slug p @ ''.html'') html st))"
            using html 1(5,6) by (simp add: written_writeIfHtml)
          then show ?thesis using Cons.IH(2)[OF r] by auto
        next
          case qn: False
          then have "q \<in> set ps" using 1(2) by simp
          from Cons.IH(1)[OF r this 1(3) 1(4) 1(5) 1(6)] show ?thesis .
        qed
      next
        case nbF: False
        with rest have r: "buildPosts lib incr fs c templates cfg allPosts ps (st, rb) = Inr (st', rb')"
          by simp
        have "q \<noteq> p" using nb nbF 1(4) by auto
        then have "q \<in> set ps" using 1(2) by simp
        from Cons.IH(1)[OF r this 1(3) 1(4) 1(5) 1(6)] show ?thesis .
      qed
    qed
  }
qed

lemma written_foldl_writeFile_mono:
  "set (written st) \<subseteq> set (written (foldl (\<lambda>s x. writeFile (f x) (g x) s) st xs))"
proof (induction xs arbitrary: st)
  case Nil
  then show ?case by simp
next
  case (Cons x xs)
  have "set (written st) \<subseteq> set (written (writeFile (f x) (g x) st))"
    by (auto simp: written_writeFile)
  then show ?case using Cons.IH[of "writeFile (f x) (g x) st"] by auto
qed

lemma rebuildIndex_mono:
  "rebuildIndex lib incr hn templates cfg posts st = Inr st' \<Longrightarrow> set (written st) \<subseteq> set (written st')"
  by (auto simp: rebuildIndex_def bindE_Inr written_writeIfHtml split: if_splits option.splits)

lemma written_foldl_pairs_mono:
  "set (written st) \<subseteq> set (written (foldl (\<lambda>s (a, b). writeFile (f a) (g a b) s) st xs))"
proof -
  have "(\<lambda>s (a, b). writeFile (f a) (g a b) s)
      = (\<lambda>s x. writeFile (f (fst x)) (g (fst x) (snd x)) s)"
    by (auto simp: fun_eq_iff)
  then show ?thesis
    using written_foldl_writeFile_mono[of st "\<lambda>x. f (fst x)" "\<lambda>x. g (fst x) (snd x)" xs] by simp
qed

lemma buildTagPages_mono:
  "buildTagPages lib posts templates cfg st = Inr st' \<Longrightarrow> set (written st) \<subseteq> set (written st')"
proof -
  assume a: "buildTagPages lib posts templates cfg st = Inr st'"
  then obtain tagPosts where tp: "tagPostsOf posts = Inr tagPosts"
    by (auto simp: buildTagPages_def bindE_Inr)
  show ?thesis
  proof (cases "orTemplate (lookupTemplate templates ''tag'') (lookupTemplate templates ''default'')")
    case (Template t)
    then have "st' = foldl (\<lambda>s (tag, taggedPosts).
          writeFile (tagPagePath lib tag) (tagPageHtml lib t cfg tag taggedPosts) s)
        st (objectEntries tagPosts)"
      using a tp by (simp add: buildTagPages_def bindE_def)
    then show ?thesis using written_foldl_pairs_mono by blast
  qed (use a tp in \<open>auto simp: buildTagPages_def bindE_def\<close>)
qed

lemma writePaginationPage_written:
  "set (written st) \<subseteq> set (written (writePaginationPage lib t cfg st pg)) \<and>
   (paginationPagePath (currentPage pg), paginationPageHtml lib t cfg pg)
     \<in> set (written (writePaginationPage lib t cfg st pg))"
  by (auto simp: writePaginationPage_def Let_def written_writeFile)

lemma foldl_writePaginationPage_mono:
  "set (written st) \<subseteq> set (written (foldl (writePaginationPage lib t cfg) st pgs))"
proof (induction pgs arbitrary: st)
  case Nil
  then show ?case by simp
next
  case (Cons pg pgs)
  show ?case using Cons.IH[of "writePaginationPage lib t cfg st pg"]
      writePaginationPage_written[of st lib t cfg pg] by auto
qed

lemma buildPaginationPages_mono:
  "buildPaginationPages lib posts templates cfg st = Inr st' \<Longrightarrow> set (written st) \<subseteq> set (written st')"
proof -
  assume a: "buildPaginationPages lib posts templates cfg st = Inr st'"
  then obtain pages where pg: "paginate (listedPosts lib posts) (postsPerPage cfg) = Inr pages"
    by (auto simp: buildPaginationPages_def bindE_Inr)
  show ?thesis
  proof (cases "orTemplate (lookupTemplate templates ''list'') (lookupTemplate templates ''default'')")
    case (Template t)
    then have "st' = foldl (writePaginationPage lib t cfg) st pages"
      using a pg by (simp add: buildPaginationPages_def bindE_def)
    then show ?thesis using foldl_writePaginationPage_mono by blast
  qed (use a pg in \<open>auto simp: buildPaginationPages_def bindE_def\<close>)
qed

lemma copyStatic_mono: "set (written st) \<subseteq> set (written (copyStatic files st))"
  unfolding copyStatic_def case_prod_beta by (rule written_foldl_writeFile_mono)

lemma copy404_mono: "set (written st) \<subseteq> set (written (copy404 templates st))"
  by (auto simp: copy404_def written_writeFile split: option.splits)

lemma buildFrom_stages:
  assumes "buildFrom lib rssNow inp posts st0 = Inr (st, rebuilt)"
  obtains st1 st2 st3 st4 sitemap where
    "buildPosts lib (inIncremental inp) (inFiles inp)
       (if inIncremental inp then inCache inp else Map.empty) (inTemplates inp) (inConfig inp)
       posts posts (st0, []) = Inr (st1, rebuilt)"
    "rebuildIndex lib (inIncremental inp) (rebuilt \<noteq> []) (inTemplates inp) (inConfig inp) posts st1 = Inr st2"
    "buildTagPages lib posts (inTemplates inp) (inConfig inp) st2 = Inr st3"
    "buildPaginationPages lib posts (inTemplates inp) (inConfig inp) st3 = Inr st4"
    "generateSitemap lib posts (inConfig inp) = Inr sitemap"
    "st = copy404 (inTemplates inp) (copyStatic (inStatic inp)
           (writeFile ''sitemap.xml'' sitemap
             (writeFile ''rss.xml'' (generateRSS lib rssNow posts (inConfig inp)) st4)))"
  using assms unfolding buildFrom_def Let_def
  by (auto simp: bindE_Inr)

lemma buildFrom_mono_from_posts:
  assumes "buildFrom lib rssNow inp posts st0 = Inr (st, rebuilt)"
    and "buildPosts lib (inIncremental inp) (inFiles inp)
       (if inIncremental inp then inCache inp else Map.empty) (inTemplates inp) (inConfig inp)
       posts posts (st0, []) = Inr (st1, rebuilt')"
  shows "set (written st1) \<subseteq> set (written st)"
proof -
  from assms(1) obtain s1 s2 s3 s4 sm where
    a: "buildPosts lib (inIncremental inp) (inFiles inp)
       (if inIncremental inp then inCache inp else Map.empty) (inTemplates inp) (inConfig inp)
       posts posts (st0, []) = Inr (s1, rebuilt)"
    and b: "rebuildIndex lib (inIncremental inp) (rebuilt \<noteq> []) (inTemplates inp) (inConfig inp) posts s1 = Inr s2"
    and c: "buildTagPages lib posts (inTemplates inp) (inConfig inp) s2 = Inr s3"
    and d: "buildPaginationPages lib posts (inTemplates inp) (inConfig inp) s3 = Inr s4"
    and e: "st = copy404 (inTemplates inp) (copyStatic (inStatic inp)
           (writeFile ''sitemap.xml'' sm
             (writeFile ''rss.xml'' (generateRSS lib rssNow posts (inConfig inp)) s4)))"
    by (rule buildFrom_stages)
  have s1: "s1 = st1" using a assms(2) by simp
  have "set (written s4) \<subseteq> set (written st)"
    unfolding e using copy404_mono copyStatic_mono by (fastforce simp: written_writeFile)
  then show ?thesis
    using rebuildIndex_mono[OF b] buildTagPages_mono[OF c] buildPaginationPages_mono[OF d] s1
    by blast
qed

lemma needsRebuild_eq:
  "getFileHash md5 fs p = Inr h \<Longrightarrow> needsRebuild md5 fs p c = Inr (\<not> strictEquals h (getProp c p))"
  by (simp add: needsRebuild_def)

lemma needsRebuild_file:
  "fs p = Some (File text) \<Longrightarrow> needsRebuild md5 fs p c = Inr (c p \<noteq> Some (Str (md5 text)))"
proof -
  assume f: "fs p = Some (File text)"
  have "strictEquals (Str (md5 text)) (getProp c p) = (c p = Some (Str (md5 text)))"
    by (cases "c p"; cases "getProp c p") (auto simp: getProp_def split: if_splits)
  then show ?thesis using f by (simp add: needsRebuild_def getFileHash_def)
qed

lemma needsRebuild_absent:
  "c p = None \<Longrightarrow> fs p \<noteq> Some Dir \<Longrightarrow> needsRebuild md5 fs p c = Inr True"
  by (cases "fs p"; cases "the (fs p)")
     (auto simp: needsRebuild_def getFileHash_def getProp_def)

lemma build_parts:
  assumes "build lib clk inp out0 = Inr r"
  obtains newCache where
    "parseAll lib clk (inFiles inp) (pathJoin [inProjectDir inp, ''pages'']) (inMdFiles inp) ([], Map.empty)
       = Inr (resPosts r, newCache)"
    "buildFrom lib (clk RssTime) inp (resPosts r)
       \<lparr>outTree = (if inIncremental inp then out0 else Map.empty), written = []\<rparr>
       = Inr (resOut r, resRebuilt r)"
    "resCache r = newCache"
  using assms unfolding build_def Let_def
  by (auto simp: bindE_Inr)

lemma build_rebuilt:
  assumes "build lib clk inp out0 = Inr r"
  shows "resRebuilt r =
     filter (\<lambda>q. \<not> draft q \<and>
                 needsBuild lib (inIncremental inp) (inFiles inp)
                   (if inIncremental inp then inCache inp else Map.empty) q = Inr True)
       (resPosts r)"
proof -
  from assms obtain newCache where
    bf: "buildFrom lib (clk RssTime) inp (resPosts r)
       \<lparr>outTree = (if inIncremental inp then out0 else Map.empty), written = []\<rparr>
       = Inr (resOut r, resRebuilt r)"
    by (rule build_parts)
  from bf obtain st1 where
    "buildPosts lib (inIncremental inp) (inFiles inp)
       (if inIncremental inp then inCache inp else Map.empty) (inTemplates inp) (inConfig inp)
       (resPosts r) (resPosts r)
       (\<lparr>outTree = (if inIncremental inp then out0 else Map.empty), written = []\<rparr>, [])
       = Inr (st1, resRebuilt r)"
    by (rule buildFrom_stages)
  from buildPosts_rebuilt[OF this] show ?thesis by simp
qed

lemma build_rebuilt_written:
  assumes b: "build lib clk inp out0 = Inr r"
    and q: "q \<in> set (resRebuilt r)"
    and h: "buildPost lib q (inTemplates inp) (resPosts r) (inConfig inp) = Inr (Some h)" "h \<noteq> []"
  shows "(slug q @ ''.html'', h) \<in> set (written (resOut r))"
proof -
  let ?c = "if inIncremental inp then inCache inp else Map.empty"
  let ?st0 = "\<lparr>outTree = (if inIncremental inp then out0 else Map.empty), written = []\<rparr>"
  from b obtain newCache where
    bf: "buildFrom lib (clk RssTime) inp (resPosts r) ?st0 = Inr (resOut r, resRebuilt r)"
    by (rule build_parts)
  from bf obtain st1 where
    bp: "buildPosts lib (inIncremental inp) (inFiles inp) ?c (inTemplates inp) (inConfig inp)
       (resPosts r) (resPosts r) (?st0, []) = Inr (st1, resRebuilt r)"
    by (rule buildFrom_stages)
  have qq: "q \<in> set (resPosts r) \<and> \<not> draft q \<and>
      needsBuild lib (inIncremental inp) (inFiles inp) ?c q = Inr True"
    using q build_rebuilt[OF b] by auto
  have "(slug q @ ''.html'', h) \<in> set (written st1)"
    using buildPosts_written[OF bp _ _ _ h] qq by blast
  then show ?thesis using buildFrom_mono_from_posts[OF bf bp] by blast
qed

lemma passFrom_writeFile: "passFrom t0 st \<Longrightarrow> passFrom t0 (writeFile p x st)"
  by (simp add: passFrom_def writeFile_def applyWrites_def)

lemma passFrom_writeIfHtml: "passFrom t0 st \<Longrightarrow> passFrom t0 (writeIfHtml p html st)"
  by (auto simp: writeIfHtml_def passFrom_writeFile split: option.splits)

lemma passFrom_foldl_writeFile:
  "passFrom t0 st \<Longrightarrow> passFrom t0 (foldl (\<lambda>s x. writeFile (f x) (g x) s) st xs)"
  by (induction xs arbitrary: st) (simp_all add: passFrom_writeFile)

lemma passFrom_buildPosts:
  "buildPosts lib incr fs c templates cfg allPosts ps (st, rb) = Inr (st', rb') \<Longrightarrow>
     passFrom t0 st \<Longrightarrow> passFrom t0 st'"
proof (induction ps arbitrary: st rb)
  case Nil
  then show ?case by simp
next
  case (Cons p ps)
  show ?case
  proof (cases "draft p")
    case True
    with Cons show ?thesis by simp
  next
    case False
    from Cons.prems(1) False obtain nb where nb: "needsBuild lib incr fs c p = Inr nb"
      and rest: "(if nb then
            bindE (buildPost lib p templates allPosts cfg) (\<lambda>html.
              buildPosts lib incr fs c templates cfg allPosts ps
                (writeIfHtml (slug p @ ''.html'') html st, rb @ [p]))
          else buildPosts lib incr fs c templates cfg allPosts ps (st, rb)) = Inr (st', rb')"
      by (auto simp: bindE_Inr)
    show ?thesis
    proof (cases nb)
      case True
      with rest obtain html where
        r: "buildPosts lib incr fs c templates cfg allPosts ps
                (writeIfHtml (slug p @ ''.html'') html st, rb @ [p]) = Inr (st', rb')"
        by (auto simp: bindE_Inr)
      show ?thesis
        using Cons.IH[OF r] Cons.prems(2) by (simp add: passFrom_writeIfHtml)
    next
      case nbF: False
      with rest have "buildPosts lib incr fs c templates cfg allPosts ps (st, rb) = Inr (st', rb')"
        by simp
      from Cons.IH[OF this Cons.prems(2)] show ?thesis .
    qed
  qed
qed

lemma passFrom_rebuildIndex:
  "rebuildIndex lib incr hn templates cfg posts st = Inr st' \<Longrightarrow> passFrom t0 st \<Longrightarrow> passFrom t0 st'"
  by (auto simp: rebuildIndex_def bindE_Inr passFrom_writeIfHtml split: if_splits option.splits)

lemma passFrom_buildTagPages:
  "buildTagPages lib posts templates cfg st = Inr st' \<Longrightarrow> passFrom t0 st \<Longrightarrow> passFrom t0 st'"
  by (cases "orTemplate (lookupTemplate templates ''tag'') (lookupTemplate templates ''default'')")
     (auto simp: buildTagPages_def bindE_Inr case_prod_unfold passFrom_foldl_writeFile)

lemma passFrom_writePaginationPage:
  "passFrom t0 st \<Longrightarrow> passFrom t0 (writePaginationPage lib t cfg st pg)"
  by (simp add: writePaginationPage_def Let_def passFrom_writeFile)

lemma passFrom_buildPaginationPages:
  "buildPaginationPages lib posts templates cfg st = Inr st' \<Longrightarrow> passFrom t0 st \<Longrightarrow> passFrom t0 st'"
proof -
  have f: "passFrom t0 s \<Longrightarrow> passFrom t0 (foldl (writePaginationPage lib t cfg) s pgs)" for s t pgs
    by (induction pgs arbitrary: s) (simp_all add: passFrom_writePaginationPage)
  assume "buildPaginationPages lib posts templates cfg st = Inr st'" and "passFrom t0 st"
  then show ?thesis
    by (cases "orTemplate (lookupTemplate templates ''list'') (lookupTemplate templates ''default'')")
       (auto simp: buildPaginationPages_def bindE_Inr f)
qed

lemma passFrom_copyStatic: "passFrom t0 st \<Longrightarrow> passFrom t0 (copyStatic files st)"
  unfolding copyStatic_def case_prod_beta by (rule passFrom_foldl_writeFile)

lemma passFrom_copy404: "passFrom t0 st \<Longrightarrow> passFrom t0 (copy404 templates st)"
  by (auto simp: copy404_def passFrom_writeFile split: option.splits)

lemma passFrom_buildFrom:
  assumes "buildFrom lib rssNow inp posts st0 = Inr (st, rebuilt)" and "passFrom t0 st0"
  shows "passFrom t0 st"
proof -
  from assms(1) obtain s1 s2 s3 s4 sm where
    a: "buildPosts lib (inIncremental inp) (inFiles inp)
       (if inIncremental inp then inCache inp else Map.empty) (inTemplates inp) (inConfig inp)
       posts posts (st0, []) = Inr (s1, rebuilt)"
    and b: "rebuildIndex lib (inIncremental inp) (rebuilt \<noteq> []) (inTemplates inp) (inConfig inp) posts s1 = Inr s2"
    and c: "buildTagPages lib posts (inTemplates inp) (inConfig inp) s2 = Inr s3"
    and d: "buildPaginationPages lib posts (inTemplates inp) (inConfig inp) s3 = Inr s4"
    and e: "st = copy404 (inTemplates inp) (copyStatic (inStatic inp)
           (writeFile ''sitemap.xml'' sm
             (writeFile ''rss.xml'' (generateRSS lib rssNow posts (inConfig inp)) s4)))"
    by (rule buildFrom_stages)
  have "passFrom t0 s4"
    using passFrom_buildPaginationPages[OF d] passFrom_buildTagPages[OF c]
      passFrom_rebuildIndex[OF b] passFrom_buildPosts[OF a] assms(2) by blast
  then show ?thesis
    unfolding e by (intro passFrom_copy404 passFrom_copyStatic passFrom_writeFile)
qed

lemma build_passFrom:
  assumes "build lib clk inp out0 = Inr r"
  shows "passFrom (if inIncremental inp then out0 else Map.empty) (resOut r)"
proof -
  from assms obtain newCache where
    bf: "buildFrom lib (clk RssTime) inp (resPosts r)
       \<lparr>outTree = (if inIncremental inp then out0 else Map.empty), written = []\<rparr>
       = Inr (resOut r, resRebuilt r)"
    by (rule build_parts)
  show ?thesis
    by (rule passFrom_buildFrom[OF bf]) (simp add: passFrom_def applyWrites_def)
qed

lemma buildPost_template:
  assumes "orTemplate (lookupTemplate templates (template p))
             (orTemplate (lookupTemplate templates ''post'') (lookupTemplate templates ''default''))
           = Template t"
  shows "buildPost lib p templates allPosts cfg
           = Inr (Some (renderTemplate t (postTemplateData lib p allPosts cfg)))"
  using assms by (simp add: buildPost_def)

lemma build_nondraft_rebuilt:
  assumes "build lib clk inp out0 = Inr r" and "\<not> inIncremental inp"
  shows "resRebuilt r = filter (\<lambda>q. \<not> draft q) (resPosts r)"
  using build_rebuilt[OF assms(1)] assms(2) by (simp add: needsBuild_def)

text \<open>
  C1. \<open>needsRebuild\<close> returns false exactly when the current hash of the path is strictly
  equal to the value the snapshot gives for the path: for an existing file, exactly
  when the snapshot stores the digest of its content. It returns true for a path that
  is absent from the snapshot. In a pass the posts that are rebuilt are the posts that
  are no drafts and for which \<open>needsBuild\<close> holds; in a pass that is not incremental these
  are all posts that are no drafts, whatever the cache holds. To rebuild a post is to
  render it with its template and to write the page: when a template is found,
  \<open>buildPost\<close> gives the rendered text, and when that text is not empty the write of it
  to the page of the post is among the writes of the pass. The output directory after
  the pass is the directory the pass started on (the empty one in a pass that is not
  incremental) with the writes of the pass applied in their order.
\<close>

theorem needsRebuild_gate:
  "(\<forall>h. getFileHash md5 fs p = Inr h \<longrightarrow>
        needsRebuild md5 fs p c = Inr (\<not> strictEquals h (getProp c p))) \<and>
   (\<forall>t. fs p = Some (File t) \<longrightarrow>
        needsRebuild md5 fs p c = Inr (c p \<noteq> Some (Str (md5 t)))) \<and>
   (c p = None \<and> fs p \<noteq> Some Dir \<longrightarrow> needsRebuild md5 fs p c = Inr True) \<and>
   (\<forall>r. build lib clk inp out0 = Inr r \<longrightarrow>
        resRebuilt r =
          filter (\<lambda>q. \<not> draft q \<and>
                      needsBuild lib (inIncremental inp) (inFiles inp)
                        (if inIncremental inp then inCache inp else Map.empty) q = Inr True)
            (resPosts r) \<and>
        (\<not> inIncremental inp \<longrightarrow> resRebuilt r = filter (\<lambda>q. \<not> draft q) (resPosts r)) \<and>
        (\<forall>q t. q \<in> set (resRebuilt r) \<and>
              orTemplate (lookupTemplate (inTemplates inp) (template q))
                (orTemplate (lookupTemplate (inTemplates inp) ''post'')
                   (lookupTemplate (inTemplates inp) ''default'')) = Template t \<longrightarrow>
              buildPost lib q (inTemplates inp) (resPosts r) (inConfig inp)
                = Inr (Some (renderTemplate t (postTemplateData lib q (resPosts r) (inConfig inp)))) \<and>
              (renderTemplate t (postTemplateData lib q (resPosts r) (inConfig inp)) \<noteq> [] \<longrightarrow>
               (slug q @ ''.html'', renderTemplate t (postTemplateData lib q (resPosts r) (inConfig inp)))
                 \<in> set (written (resOut r)))) \<and>
        outTree (resOut r)
          = applyWrites (if inIncremental inp then out0 else Map.empty) (written (resOut r)))"
proof (intro conjI allI impI)
  fix h assume "getFileHash md5 fs p = Inr h"
  then show "needsRebuild md5 fs p c = Inr (\<not> strictEquals h (getProp c p))"
    by (rule needsRebuild_eq)
next
  fix t assume "fs p = Some (File t)"
  then show "needsRebuild md5 fs p c = Inr (c p \<noteq> Some (Str (md5 t)))"
    by (rule needsRebuild_file)
next
  assume "c p = None \<and> fs p \<noteq> Some Dir"
  then show "needsRebuild md5 fs p c = Inr True"
    using needsRebuild_absent by blast
next
  fix r assume b: "build lib clk inp out0 = Inr r"
  show "resRebuilt r =
          filter (\<lambda>q. \<not> draft q \<and>
                      needsBuild lib (inIncremental inp) (inFiles inp)
                        (if inIncremental inp then inCache inp else Map.empty) q = Inr True)
            (resPosts r)"
    using b by (rule build_rebuilt)
  show "outTree (resOut r)
          = applyWrites (if inIncremental inp then out0 else Map.empty) (written (resOut r))"
    using build_passFrom[OF b] by (simp add: passFrom_def)
  {
    assume "\<not> inIncremental inp"
    with b show "resRebuilt r = filter (\<lambda>q. \<not> draft q) (resPosts r)"
      by (rule build_nondraft_rebuilt)
  }
  {
    fix q t
    assume a: "q \<in> set (resRebuilt r) \<and>
              orTemplate (lookupTemplate (inTemplates inp) (template q))
                (orTemplate (lookupTemplate (inTemplates inp) ''post'')
                   (lookupTemplate (inTemplates inp) ''default'')) = Template t"
    let ?html = "renderTemplate t (postTemplateData lib q (resPosts r) (inConfig inp))"
    from a show bp: "buildPost lib q (inTemplates inp) (resPosts r) (inConfig inp) = Inr (Some ?html)"
      by (intro buildPost_template) simp
    assume "?html \<noteq> []"
    with build_rebuilt_written[OF b _ bp] a
    show "(slug q @ ''.html'', ?html) \<in> set (written (resOut r))"
      by blast
  }
qed

lemma parseMarkdownFile_dated:
  "hasDate lib text \<Longrightarrow>
     parseMarkdownFile lib now pagesDir file text = parseMarkdownFile lib now' pagesDir file text"
  by (auto simp: hasDate_def parseMarkdownFile_def orElse_def Let_def split: option.splits prod.splits)

lemma parseAll_clock:
  "allDated lib fs pagesDir files \<Longrightarrow>
     parseAll lib clk1 fs pagesDir files acc = parseAll lib clk2 fs pagesDir files acc"
proof (induction files arbitrary: acc)
  case Nil
  then show ?case by (cases acc) simp
next
  case (Cons fl files)
  obtain posts newCache where acc: "acc = (posts, newCache)" by (cases acc)
  have rest: "allDated lib fs pagesDir files"
    using Cons.prems by (simp add: allDated_def)
  show ?case
  proof (cases "readFile fs (pathJoin [pagesDir, fl])")
    case (Inl e)
    then show ?thesis by (simp add: acc bindE_def)
  next
    case (Inr body)
    then have "hasDate lib body" using Cons.prems by (simp add: allDated_def)
    then have "parseMarkdownFile lib (clk1 (ParseTime fl)) pagesDir fl body
        = parseMarkdownFile lib (clk2 (ParseTime fl)) pagesDir fl body"
      by (rule parseMarkdownFile_dated)
    then show ?thesis
      using Inr Cons.IH[OF rest] by (simp add: acc bindE_def Let_def split: sum.splits)
  qed
qed

lemma agreeOff_refl: "agreeOff k st st"
  by (simp add: agreeOff_def writtenPaths_def)

lemma agreeOff_write_key: "agreeOff k (writeFile k x st) (writeFile k y st)"
  by (simp add: agreeOff_def writtenPaths_def writeFile_def)

lemma agreeOff_writeFile:
  "agreeOff k st st' \<Longrightarrow> agreeOff k (writeFile p x st) (writeFile p x st')"
  by (auto simp: agreeOff_def writtenPaths_def writeFile_def fun_eq_iff split: if_splits)

lemma agreeOff_foldl:
  "agreeOff k st st' \<Longrightarrow>
     agreeOff k (foldl (\<lambda>s x. writeFile (f x) (g x) s) st xs)
               (foldl (\<lambda>s x. writeFile (f x) (g x) s) st' xs)"
  by (induction xs arbitrary: st st') (auto simp: agreeOff_writeFile)

lemma agreeOff_copyStatic:
  "agreeOff k st st' \<Longrightarrow> agreeOff k (copyStatic files st) (copyStatic files st')"
  unfolding copyStatic_def case_prod_beta by (rule agreeOff_foldl)

lemma agreeOff_copy404:
  "agreeOff k st st' \<Longrightarrow> agreeOff k (copy404 templates st) (copy404 templates st')"
  by (auto simp: copy404_def agreeOff_writeFile split: option.splits)

lemma agreeOff_outTree: "agreeOff k st st' \<Longrightarrow> p \<noteq> k \<Longrightarrow> outTree st p = outTree st' p"
  by (auto simp: agreeOff_def writtenPaths_def fun_eq_iff split: if_splits)

lemma generateRSS_eq_iff:
  "generateRSS lib t1 posts cfg = generateRSS lib t2 posts cfg \<longleftrightarrow> toUTCString t1 = toUTCString t2"
  unfolding generateRSS_def Let_def
  by (simp only: same_append_eq append_same_eq)

lemma buildFrom_clock:
  assumes b: "buildFrom lib t1 inp posts st0 = Inr (s1, rb)"
  shows "\<exists>s2. buildFrom lib t2 inp posts st0 = Inr (s2, rb) \<and> agreeOff ''rss.xml'' s1 s2 \<and>
              (toUTCString t1 = toUTCString t2 \<longrightarrow> s2 = s1)"
proof -
  let ?c = "if inIncremental inp then inCache inp else Map.empty"
  from b obtain st1 st2 st3 st4 sm where
    a1: "buildPosts lib (inIncremental inp) (inFiles inp) ?c (inTemplates inp) (inConfig inp)
       posts posts (st0, []) = Inr (st1, rb)"
    and a2: "rebuildIndex lib (inIncremental inp) (rb \<noteq> []) (inTemplates inp) (inConfig inp) posts st1 = Inr st2"
    and a3: "buildTagPages lib posts (inTemplates inp) (inConfig inp) st2 = Inr st3"
    and a4: "buildPaginationPages lib posts (inTemplates inp) (inConfig inp) st3 = Inr st4"
    and a5: "generateSitemap lib posts (inConfig inp) = Inr sm"
    and a6: "s1 = copy404 (inTemplates inp) (copyStatic (inStatic inp)
           (writeFile ''sitemap.xml'' sm
             (writeFile ''rss.xml'' (generateRSS lib t1 posts (inConfig inp)) st4)))"
    by (rule buildFrom_stages)
  let ?s2 = "copy404 (inTemplates inp) (copyStatic (inStatic inp)
           (writeFile ''sitemap.xml'' sm
             (writeFile ''rss.xml'' (generateRSS lib t2 posts (inConfig inp)) st4)))"
  have r: "buildFrom lib t2 inp posts st0 = Inr (?s2, rb)"
    unfolding buildFrom_def Let_def using a1 a2 a3 a4 a5 by (simp add: bindE_def)
  have ag: "agreeOff ''rss.xml'' s1 ?s2"
    unfolding a6
    by (intro agreeOff_copy404 agreeOff_copyStatic agreeOff_writeFile agreeOff_write_key)
  have "toUTCString t1 = toUTCString t2 \<longrightarrow> ?s2 = s1"
  proof
    assume "toUTCString t1 = toUTCString t2"
    then have "generateRSS lib t1 posts (inConfig inp) = generateRSS lib t2 posts (inConfig inp)"
      using generateRSS_eq_iff by blast
    then show "?s2 = s1" unfolding a6 by simp
  qed
  then show ?thesis using r ag by blast
qed

lemma build_clock:
  assumes full: "\<not> inIncremental inp"
    and dated: "allDated lib (inFiles inp) (pathJoin [inProjectDir inp, ''pages'']) (inMdFiles inp)"
    and b1: "build lib clk1 inp out1 = Inr r1"
  shows "\<exists>r2. build lib clk2 inp out2 = Inr r2 \<and>
              resPosts r2 = resPosts r1 \<and> resCache r2 = resCache r1 \<and>
              resRebuilt r2 = resRebuilt r1 \<and>
              agreeOff ''rss.xml'' (resOut r1) (resOut r2) \<and>
              (toUTCString (clk1 RssTime) = toUTCString (clk2 RssTime) \<longrightarrow> r2 = r1)"
proof -
  let ?pd = "pathJoin [inProjectDir inp, ''pages'']"
  let ?st0 = "\<lparr>outTree = Map.empty, written = []\<rparr> :: outstate"
  from b1 obtain newCache where
    p1: "parseAll lib clk1 (inFiles inp) ?pd (inMdFiles inp) ([], Map.empty) = Inr (resPosts r1, newCache)"
    and f1: "buildFrom lib (clk1 RssTime) inp (resPosts r1)
       \<lparr>outTree = (if inIncremental inp then out1 else Map.empty), written = []\<rparr>
       = Inr (resOut r1, resRebuilt r1)"
    and c1: "resCache r1 = newCache"
    by (rule build_parts)
  have p2: "parseAll lib clk2 (inFiles inp) ?pd (inMdFiles inp) ([], Map.empty) = Inr (resPosts r1, newCache)"
    using p1 parseAll_clock[OF dated, of clk1 "([], Map.empty)" clk2] by simp
  have f1': "buildFrom lib (clk1 RssTime) inp (resPosts r1) ?st0 = Inr (resOut r1, resRebuilt r1)"
    using f1 full by simp
  from buildFrom_clock[OF f1', of "clk2 RssTime"] obtain s2 where
    f2: "buildFrom lib (clk2 RssTime) inp (resPosts r1) ?st0 = Inr (s2, resRebuilt r1)"
    and ag: "agreeOff ''rss.xml'' (resOut r1) s2"
    and same: "toUTCString (clk1 RssTime) = toUTCString (clk2 RssTime) \<longrightarrow> s2 = resOut r1"
    by blast
  let ?r2 = "\<lparr>resOut = s2, resCache = newCache, resPosts = resPosts r1, resRebuilt = resRebuilt r1\<rparr>"
  have "build lib clk2 inp out2 = Inr ?r2"
    unfolding build_def Let_def using p2 f2 full by (simp add: bindE_def)
  moreover have "toUTCString (clk1 RssTime) = toUTCString (clk2 RssTime) \<longrightarrow> ?r2 = r1"
    using same c1 by auto
  ultimately show ?thesis using ag c1 by auto
qed

lemma outTree_writeFile: "outTree (writeFile p x st) k = (if k = p then Some x else outTree st k)"
  by (simp add: writeFile_def)

lemma outTree_foldl_writeFile:
  "k \<notin> f ` set xs \<Longrightarrow> outTree (foldl (\<lambda>s x. writeFile (f x) (g x) s) st xs) k = outTree st k"
  by (induction xs arbitrary: st) (auto simp: outTree_writeFile)

lemma outTree_copyStatic:
  "k \<notin> fst ` set files \<Longrightarrow> outTree (copyStatic files st) k = outTree st k"
  unfolding copyStatic_def case_prod_beta by (rule outTree_foldl_writeFile)

lemma outTree_copy404: "k \<noteq> ''404.html'' \<Longrightarrow> outTree (copy404 templates st) k = outTree st k"
  by (auto simp: copy404_def outTree_writeFile split: option.splits)

lemma build_rss_content:
  assumes b: "build lib clk inp out0 = Inr r" and ns: "''rss.xml'' \<notin> fst ` set (inStatic inp)"
  shows "outTree (resOut r) ''rss.xml'' = Some (generateRSS lib (clk RssTime) (resPosts r) (inConfig inp))"
proof -
  from b obtain newCache where
    bf: "buildFrom lib (clk RssTime) inp (resPosts r)
       \<lparr>outTree = (if inIncremental inp then out0 else Map.empty), written = []\<rparr>
       = Inr (resOut r, resRebuilt r)"
    by (rule build_parts)
  from bf obtain st4 sm where
    "resOut r = copy404 (inTemplates inp) (copyStatic (inStatic inp)
           (writeFile ''sitemap.xml'' sm
             (writeFile ''rss.xml'' (generateRSS lib (clk RssTime) (resPosts r) (inConfig inp)) st4)))"
    by (rule buildFrom_stages)
  then show ?thesis
    using ns by (simp add: outTree_copy404 outTree_copyStatic outTree_writeFile)
qed

text \<open>
  C3 (as amended). A full build does not depend on what the output directory held
  before. When every page carries a date in its front matter, a full build of the same
  sources at another time fails exactly when the first one fails, and otherwise writes
  the same paths in the same order and the same content to every path other than
  \<open>rss.xml\<close>, whatever the clock shows; and when the two build times print as the same
  \<open>toUTCString\<close> text, the two output trees are identical.
\<close>

theorem full_build_reproducible:
  assumes "\<not> inIncremental inp"
  shows "build lib clk inp out1 = build lib clk inp out2 \<and>
         (allDated lib (inFiles inp) (pathJoin [inProjectDir inp, ''pages'']) (inMdFiles inp) \<longrightarrow>
            isl (build lib clk2 inp out2) = isl (build lib clk1 inp out1) \<and>
            (\<forall>r1. build lib clk1 inp out1 = Inr r1 \<longrightarrow>
               (\<exists>r2. build lib clk2 inp out2 = Inr r2 \<and>
                  writtenPaths (resOut r2) = writtenPaths (resOut r1) \<and>
                  (\<forall>path. path \<noteq> ''rss.xml'' \<longrightarrow>
                     outTree (resOut r2) path = outTree (resOut r1) path) \<and>
                  (toUTCString (clk2 RssTime) = toUTCString (clk1 RssTime) \<longrightarrow>
                     outTree (resOut r2) = outTree (resOut r1)))))"
proof (intro conjI impI allI)
  show "build lib clk inp out1 = build lib clk inp out2"
    using assms by (simp add: build_def)
next
  assume dated: "allDated lib (inFiles inp) (pathJoin [inProjectDir inp, ''pages'']) (inMdFiles inp)"
  have "\<not> isl (build lib clk1 inp out1) \<Longrightarrow> \<not> isl (build lib clk2 inp out2)"
  proof -
    assume "\<not> isl (build lib clk1 inp out1)"
    then obtain r1 where "build lib clk1 inp out1 = Inr r1"
      by (cases "build lib clk1 inp out1") auto
    from build_clock[OF assms dated this, of clk2 out2] show ?thesis by auto
  qed
  moreover have "\<not> isl (build lib clk2 inp out2) \<Longrightarrow> \<not> isl (build lib clk1 inp out1)"
  proof -
    assume "\<not> isl (build lib clk2 inp out2)"
    then obtain r2 where "build lib clk2 inp out2 = Inr r2"
      by (cases "build lib clk2 inp out2") auto
    from build_clock[OF assms dated this, of clk1 out1] show ?thesis by auto
  qed
  ultimately show "isl (build lib clk2 inp out2) = isl (build lib clk1 inp out1)"
    by blast
next
  fix r1
  assume dated: "allDated lib (inFiles inp) (pathJoin [inProjectDir inp, ''pages'']) (inMdFiles inp)"
    and b1: "build lib clk1 inp out1 = Inr r1"
  from build_clock[OF assms dated b1, of clk2 out2] obtain r2 where
    b2: "build lib clk2 inp out2 = Inr r2"
    and ag: "agreeOff ''rss.xml'' (resOut r1) (resOut r2)"
    and same: "toUTCString (clk1 RssTime) = toUTCString (clk2 RssTime) \<longrightarrow> r2 = r1"
    by blast
  have "writtenPaths (resOut r2) = writtenPaths (resOut r1)"
    using ag by (simp add: agreeOff_def)
  moreover have "\<forall>path. path \<noteq> ''rss.xml'' \<longrightarrow> outTree (resOut r2) path = outTree (resOut r1) path"
    using agreeOff_outTree[OF ag] by simp
  moreover have "toUTCString (clk2 RssTime) = toUTCString (clk1 RssTime) \<longrightarrow>
                 outTree (resOut r2) = outTree (resOut r1)"
    using same by auto
  ultimately show "\<exists>r2. build lib clk2 inp out2 = Inr r2 \<and>
                  writtenPaths (resOut r2) = writtenPaths (resOut r1) \<and>
                  (\<forall>path. path \<noteq> ''rss.xml'' \<longrightarrow>
                     outTree (resOut r2) path = outTree (resOut r1) path) \<and>
                  (toUTCString (clk2 RssTime) = toUTCString (clk1 RssTime) \<longrightarrow>
                     outTree (resOut r2) = outTree (resOut r1))"
    using b2 by blast
qed

lemma exampleFullBuild_ok: "\<not> isl exampleFullBuild"
  by code_simp

lemma exampleFullBuild_Inr:
  "build exampleLibrary (exampleClock 0) exampleFullInput Map.empty = Inr (projr exampleFullBuild)"
  using exampleFullBuild_ok unfolding exampleFullBuild_def by (metis sum.collapse(2))

lemma example_allDated:
  "allDated exampleLibrary
     (inFiles exampleFullInput)
     (pathJoin [inProjectDir exampleFullInput, ''pages''])
     (inMdFiles exampleFullInput)"
  by code_simp

lemma example_not_incremental:
  "\<not> inIncremental exampleFullInput"
  by (simp add: exampleInput_def exampleFullInput_def)

theorem full_build_reproducible_witness:
  "\<not> inIncremental exampleFullInput \<and>
   build exampleLibrary (exampleClock 0) exampleFullInput Map.empty
     = build exampleLibrary (exampleClock 0) exampleFullInput [''old.html'' \<mapsto> ''stale''] \<and>
   allDated exampleLibrary
     (inFiles exampleFullInput)
     (pathJoin [inProjectDir exampleFullInput, ''pages''])
     (inMdFiles exampleFullInput) \<and>
   build exampleLibrary (exampleClock 0) exampleFullInput Map.empty = Inr (projr exampleFullBuild) \<and>
   (\<exists>r2. build exampleLibrary (exampleClock 5000) exampleFullInput [''old.html'' \<mapsto> ''stale'']
            = Inr r2 \<and>
         writtenPaths (resOut r2) = writtenPaths (resOut (projr exampleFullBuild)) \<and>
         outTree (resOut r2) ''sitemap.xml'' = outTree (resOut (projr exampleFullBuild)) ''sitemap.xml'' \<and>
         outTree (resOut r2) ''old.html'' = outTree (resOut (projr exampleFullBuild)) ''old.html'')"
proof -
  note main = full_build_reproducible[OF example_not_incremental,
      of exampleLibrary "exampleClock 0" Map.empty "[''old.html'' \<mapsto> ''stale'']"
         "exampleClock 5000" "exampleClock 0"]
  from main have same: "build exampleLibrary (exampleClock 0) exampleFullInput Map.empty
     = build exampleLibrary (exampleClock 0) exampleFullInput [''old.html'' \<mapsto> ''stale'']"
    by blast
  from main example_allDated exampleFullBuild_Inr
  obtain r2 where
    "build exampleLibrary (exampleClock 5000) exampleFullInput [''old.html'' \<mapsto> ''stale''] = Inr r2"
    "writtenPaths (resOut r2) = writtenPaths (resOut (projr exampleFullBuild))"
    "\<forall>path. path \<noteq> ''rss.xml'' \<longrightarrow>
        outTree (resOut r2) path = outTree (resOut (projr exampleFullBuild)) path"
    by blast
  then show ?thesis
    using example_not_incremental example_allDated exampleFullBuild_Inr same by auto
qed

lemma example_clock_texts: "toUTCString (exampleClock 0 RssTime) \<noteq> toUTCString (exampleClock 5000 RssTime)"
  by code_simp

text \<open>
  The claim as stated fails: \<open>generateRSS\<close> writes the time of the build into
  \<open>lastBuildDate\<close>, so two full builds of the same sources that start five seconds apart
  produce different files \<open>rss.xml\<close>.
\<close>

theorem full_build_rss_counterexample:
  "\<not> isl exampleFullBuild \<and> \<not> isl exampleLaterBuild \<and>
   outTree (resOut (projr exampleFullBuild)) ''rss.xml'' \<noteq>
   outTree (resOut (projr exampleLaterBuild)) ''rss.xml''"
proof -
  let ?inp = exampleFullInput
  let ?r1 = "projr exampleFullBuild"
  from build_clock[OF example_not_incremental example_allDated exampleFullBuild_Inr,
      of "exampleClock 5000" Map.empty]
  obtain r2 where b2: "build exampleLibrary (exampleClock 5000) ?inp Map.empty = Inr r2"
    and posts: "resPosts r2 = resPosts ?r1"
    by blast
  have l: "exampleLaterBuild = Inr r2" using b2 by (simp add: exampleLaterBuild_def)
  have ns: "''rss.xml'' \<notin> fst ` set (inStatic ?inp)"
    by (simp add: exampleInput_def exampleFullInput_def)
  have x1: "outTree (resOut ?r1) ''rss.xml''
      = Some (generateRSS exampleLibrary (exampleClock 0 RssTime) (resPosts ?r1) (inConfig ?inp))"
    using build_rss_content[OF exampleFullBuild_Inr ns] .
  have x2: "outTree (resOut r2) ''rss.xml''
      = Some (generateRSS exampleLibrary (exampleClock 5000 RssTime) (resPosts ?r1) (inConfig ?inp))"
    using build_rss_content[OF b2 ns] posts by simp
  have "outTree (resOut ?r1) ''rss.xml'' \<noteq> outTree (resOut r2) ''rss.xml''"
    unfolding x1 x2 using example_clock_texts generateRSS_eq_iff by blast
  then show ?thesis using exampleFullBuild_ok by (simp add: l)
qed

lemma example_parse:
  "map slug (filter (\<lambda>q. \<not> draft q) (fst (projr
     (parseAll exampleLibrary (exampleClock 0)
        (inFiles exampleFullInput)
        (pathJoin [inProjectDir exampleFullInput, ''pages''])
        (inMdFiles exampleFullInput)
        ([], Map.empty))))) = [''a'']"
  by code_simp

lemma example_posts:
  "map slug (filter (\<lambda>q. \<not> draft q) (resPosts (projr exampleFullBuild))) = [''a'']"
proof -
  from exampleFullBuild_Inr obtain newCache where
    "parseAll exampleLibrary (exampleClock 0)
        (inFiles exampleFullInput)
        (pathJoin [inProjectDir exampleFullInput, ''pages''])
        (inMdFiles exampleFullInput)
        ([], Map.empty) = Inr (resPosts (projr exampleFullBuild), newCache)"
    by (rule build_parts)
  then show ?thesis using example_parse by simp
qed

lemma example_page:
  "resPosts (projr exampleFullBuild) \<noteq> [] \<and>
   \<not> draft (hd (resPosts (projr exampleFullBuild))) \<and>
   slug (hd (resPosts (projr exampleFullBuild))) = ''a'' \<and>
   orTemplate (lookupTemplate (inTemplates exampleFullInput) (template (hd (resPosts (projr exampleFullBuild)))))
     (orTemplate (lookupTemplate (inTemplates exampleFullInput) ''post'')
        (lookupTemplate (inTemplates exampleFullInput) ''default'')) = Template ''<h1>{{title}}</h1>'' \<and>
   renderTemplate ''<h1>{{title}}</h1>''
     (postTemplateData exampleLibrary (hd (resPosts (projr exampleFullBuild)))
        (resPosts (projr exampleFullBuild)) (inConfig exampleFullInput)) = ''<h1>Title</h1>'' \<and>
   outTree (resOut (projr exampleFullBuild)) ''a.html'' = Some ''<h1>Title</h1>''"
  by code_simp

theorem needsRebuild_gate_witness:
  "exampleFiles ''Title'' examplePath = Some (File ''Title'') \<and>
   getFileHash (\<lambda>s. s) (exampleFiles ''Title'') examplePath = Inr (Str ''Title'') \<and>
   needsRebuild (\<lambda>s. s) (exampleFiles ''Title'') examplePath [examplePath \<mapsto> Str ''Title''] = Inr False \<and>
   needsRebuild (\<lambda>s. s) (exampleFiles ''Title'') examplePath [examplePath \<mapsto> Str ''Other''] = Inr True \<and>
   (Map.empty :: cache) examplePath = None \<and> exampleFiles ''Title'' examplePath \<noteq> Some Dir \<and>
   needsRebuild (\<lambda>s. s) (exampleFiles ''Title'') examplePath Map.empty = Inr True \<and>
   \<not> inIncremental exampleFullInput \<and>
   inCache exampleFullInput examplePath = Some (Str ''Title'') \<and>
   build exampleLibrary (exampleClock 0) exampleFullInput Map.empty = Inr (projr exampleFullBuild) \<and>
   resRebuilt (projr exampleFullBuild) = filter (\<lambda>q. \<not> draft q) (resPosts (projr exampleFullBuild)) \<and>
   map slug (resRebuilt (projr exampleFullBuild)) = [''a''] \<and>
   hd (resPosts (projr exampleFullBuild)) \<in> set (resRebuilt (projr exampleFullBuild)) \<and>
   orTemplate (lookupTemplate (inTemplates exampleFullInput) (template (hd (resPosts (projr exampleFullBuild)))))
     (orTemplate (lookupTemplate (inTemplates exampleFullInput) ''post'')
        (lookupTemplate (inTemplates exampleFullInput) ''default'')) = Template ''<h1>{{title}}</h1>'' \<and>
   buildPost exampleLibrary (hd (resPosts (projr exampleFullBuild))) (inTemplates exampleFullInput)
     (resPosts (projr exampleFullBuild)) (inConfig exampleFullInput) = Inr (Some ''<h1>Title</h1>'') \<and>
   (''a.html'', ''<h1>Title</h1>'') \<in> set (written (resOut (projr exampleFullBuild))) \<and>
   outTree (resOut (projr exampleFullBuild)) ''a.html'' = Some ''<h1>Title</h1>'' \<and>
   outTree (resOut (projr exampleFullBuild)) = applyWrites Map.empty (written (resOut (projr exampleFullBuild)))"
proof -
  let ?fs = "exampleFiles ''Title''"
  let ?inp = exampleFullInput
  let ?r = "projr exampleFullBuild"
  let ?q = "hd (resPosts ?r)"
  have f: "?fs examplePath = Some (File ''Title'')"
    by (simp add: exampleFiles_def)
  have h: "getFileHash (\<lambda>s. s) ?fs examplePath = Inr (Str ''Title'')"
    by (simp add: getFileHash_def f)
  have ch: "inCache ?inp examplePath = Some (Str ''Title'')"
    by (simp add: exampleFullInput_def exampleInput_def)
  note g1 = needsRebuild_gate[of "\<lambda>s. s" ?fs examplePath "[examplePath \<mapsto> Str ''Title'']"
      exampleLibrary "exampleClock 0" ?inp Map.empty]
  note g2 = needsRebuild_gate[of "\<lambda>s. s" ?fs examplePath "[examplePath \<mapsto> Str ''Other'']"
      exampleLibrary "exampleClock 0" ?inp Map.empty]
  note g3 = needsRebuild_gate[of "\<lambda>s. s" ?fs examplePath Map.empty
      exampleLibrary "exampleClock 0" ?inp Map.empty]
  have w1: "needsRebuild (\<lambda>s. s) ?fs examplePath [examplePath \<mapsto> Str ''Title''] = Inr False"
    using g1 f by simp
  have w2: "needsRebuild (\<lambda>s. s) ?fs examplePath [examplePath \<mapsto> Str ''Other''] = Inr True"
    using g2 f by simp
  have w3: "needsRebuild (\<lambda>s. s) ?fs examplePath Map.empty = Inr True"
    using g3 f by simp
  from g1 exampleFullBuild_Inr have
    w4: "\<not> inIncremental ?inp \<longrightarrow> resRebuilt ?r = filter (\<lambda>q. \<not> draft q) (resPosts ?r)"
    and w5: "\<And>q t. q \<in> set (resRebuilt ?r) \<and>
              orTemplate (lookupTemplate (inTemplates ?inp) (template q))
                (orTemplate (lookupTemplate (inTemplates ?inp) ''post'')
                   (lookupTemplate (inTemplates ?inp) ''default'')) = Template t \<Longrightarrow>
              buildPost exampleLibrary q (inTemplates ?inp) (resPosts ?r) (inConfig ?inp)
                = Inr (Some (renderTemplate t (postTemplateData exampleLibrary q (resPosts ?r) (inConfig ?inp)))) \<and>
              (renderTemplate t (postTemplateData exampleLibrary q (resPosts ?r) (inConfig ?inp)) \<noteq> [] \<longrightarrow>
               (slug q @ ''.html'', renderTemplate t (postTemplateData exampleLibrary q (resPosts ?r) (inConfig ?inp)))
                 \<in> set (written (resOut ?r)))"
    and w6: "outTree (resOut ?r)
          = applyWrites (if inIncremental ?inp then Map.empty else Map.empty) (written (resOut ?r))"
    by blast+
  have rb: "resRebuilt ?r = filter (\<lambda>q. \<not> draft q) (resPosts ?r)"
    using w4 example_not_incremental by blast
  have q: "?q \<in> set (resRebuilt ?r)"
    unfolding rb using example_page by simp
  have tpl: "orTemplate (lookupTemplate (inTemplates ?inp) (template ?q))
                (orTemplate (lookupTemplate (inTemplates ?inp) ''post'')
                   (lookupTemplate (inTemplates ?inp) ''default'')) = Template ''<h1>{{title}}</h1>''"
    using example_page by blast
  have html: "renderTemplate ''<h1>{{title}}</h1>''
     (postTemplateData exampleLibrary ?q (resPosts ?r) (inConfig ?inp)) = ''<h1>Title</h1>''"
    using example_page by blast
  have sl: "slug ?q = ''a''" using example_page by blast
  from w5[of ?q "''<h1>{{title}}</h1>''"] q tpl have
    bp: "buildPost exampleLibrary ?q (inTemplates ?inp) (resPosts ?r) (inConfig ?inp)
           = Inr (Some ''<h1>Title</h1>'')"
    and wr: "(''a.html'', ''<h1>Title</h1>'') \<in> set (written (resOut ?r))"
    unfolding html sl by simp_all
  have tree: "outTree (resOut ?r) ''a.html'' = Some ''<h1>Title</h1>''"
    using example_page by blast
  have w7: "outTree (resOut ?r) = applyWrites Map.empty (written (resOut ?r))"
    using w6 by simp
  show ?thesis
    using f h w1 w2 w3 example_not_incremental ch exampleFullBuild_Inr rb example_posts q tpl bp wr
      tree w7
    by simp
qed
section \<open>The aggregate pages of a pass\<close>

















lemma sum_case_projr:
  "(case x of Inl e \<Rightarrow> False | Inr r \<Rightarrow> P r) \<Longrightarrow> \<not> isl x \<and> P (projr x)"
  by (cases x) simp_all






text \<open>
  Without a page \<open>index\<close> the root page is written by \<open>buildPaginationPages\<close>, and only when
  the output directory holds no \<open>index.html\<close>. An incremental pass keeps the output
  directory, so after a post has changed it writes the first pagination page with the
  new list and leaves the root page of the earlier pass as it was.
\<close>

lemma example_stale_eval:
  "case exampleStaleBuild of Inl e \<Rightarrow> False | Inr r \<Rightarrow>
  (map slug (resRebuilt r) = [''a''] \<and>
   find (\<lambda>p. slug p = ''index'') (resPosts r) = None \<and>
   writtenPaths (resOut r) = [''a.html'', ''page/1.html'', ''rss.xml'', ''sitemap.xml''] \<and>
   outTree (resOut r) ''index.html'' = Some ''<main>old</main>'' \<and>
   outTree (resOut r) ''page/1.html'' \<noteq> Some ''<main>old</main>'')"
  by code_simp

lemma incremental_root_page_kept:
  "\<not> isl exampleStaleBuild \<and>
   map slug (resRebuilt (projr exampleStaleBuild)) = [''a''] \<and>
   find (\<lambda>p. slug p = ''index'') (resPosts (projr exampleStaleBuild)) = None \<and>
   writtenPaths (resOut (projr exampleStaleBuild)) = [''a.html'', ''page/1.html'', ''rss.xml'', ''sitemap.xml''] \<and>
   outTree (resOut (projr exampleStaleBuild)) ''index.html'' = Some ''<main>old</main>'' \<and>
   outTree (resOut (projr exampleStaleBuild)) ''page/1.html'' \<noteq> Some ''<main>old</main>''"
  by (rule sum_case_projr[OF example_stale_eval])
end
